theory Spec2Isabelle
  imports Main "HOL-Library.Sublist" "HOL-Library.AList"
begin


section \<open>JavaScript values as the handlers use them\<close>

text \<open>
  A nullable text column read from the store is a \<open>string option\<close>: \<open>None\<close> is
  \<open>null\<close>. JavaScript's truthiness of such a value: \<open>null\<close> and the empty string
  are falsy, every other string is truthy.
\<close>

definition truthy :: "string option \<Rightarrow> bool" where
  "truthy v = (case v of None \<Rightarrow> False | Some s \<Rightarrow> s \<noteq> [])"

text \<open>\<open>v || '-'\<close> on a nullable string.\<close>

definition or_dash :: "string option \<Rightarrow> string" where
  "or_dash v = (case v of None \<Rightarrow> ''-'' | Some s \<Rightarrow> if s = [] then ''-'' else s)"

text \<open>\<open>v || d\<close> with a string default.\<close>

definition or_else :: "string option \<Rightarrow> string \<Rightarrow> string" where
  "or_else v d = (case v of None \<Rightarrow> d | Some s \<Rightarrow> if s = [] then d else s)"

text \<open>\<open>${v}\<close> inside a template literal: \<open>null\<close> is printed as the word null.\<close>

definition template :: "string option \<Rightarrow> string" where
  "template v = (case v of None \<Rightarrow> ''null'' | Some s \<Rightarrow> s)"

text \<open>\<open>${n}\<close> for a non-negative integer: its decimal digits.\<close>

definition digit_char :: "nat \<Rightarrow> char" where
  "digit_char d = ''0123456789'' ! d"

function show_nat :: "nat \<Rightarrow> string" where
  "show_nat n = (if n < 10 then [digit_char n] else show_nat (n div 10) @ [digit_char (n mod 10)])"
  by pat_completeness auto
termination
  by (relation "measure id") auto

declare show_nat.simps [simp del]

definition nl :: string where
  "nl = [CHR 0x0A]"

definition dq :: string where
  "dq = [CHR 0x22]"

text \<open>\<open>xs.join(sep)\<close>.\<close>

fun join :: "string \<Rightarrow> string list \<Rightarrow> string" where
  "join sep [] = []"
| "join sep [x] = x"
| "join sep (x # y # ys) = x @ sep @ join sep (y # ys)"

text \<open>\<open>s.substring(0, 5)\<close>.\<close>

definition substring05 :: "string \<Rightarrow> string" where
  "substring05 s = take 5 s"

section \<open>Scheduled events\<close>

text \<open>One row of \<open>pendaftaran_operasi\<close>, with the columns the notification code selects.\<close>

record surgery =
  nama_pasien :: "string option"
  no_rekam_medis :: "string option"
  dokter_operator :: "string option"
  dokter_anestesi :: "string option"
  jam_rencana_operasi :: "string option"
  jenis_operasi :: "string option"
  ruangan_rawat_inap :: "string option"
  diagnosis :: "string option"
  nomor_telp_1 :: "string option"
  nomor_telp_2 :: "string option"
  ruang_operasi :: "string option"

section \<open>Notification composer\<close>

definition jam :: "surgery \<Rightarrow> string" where
  "jam s = (case jam_rencana_operasi s of
              None \<Rightarrow> ''-''
            | Some t \<Rightarrow> if t = [] then ''-'' else substring05 t)"

text \<open>
  The per-event block of \<open>runDailyWhatsAppJob\<close>; \<open>i\<close> is the index that
  \<open>map\<close> passes to its callback.
\<close>

definition cron_line :: "surgery \<Rightarrow> nat \<Rightarrow> string" where
  "cron_line s i =
     show_nat (i + 1) @ ''. '' @ template (nama_pasien s) @ '' ('' @ or_dash (no_rekam_medis s) @ '')''
     @ nl @ ''   Dokter Operator: '' @ or_dash (dokter_operator s)
     @ nl @ ''   Dokter Anestesi: '' @ or_dash (dokter_anestesi s)
     @ nl @ ''   Jam     : '' @ jam s
     @ nl @ ''   Jenis   : '' @ or_dash (jenis_operasi s)
     @ nl @ ''   Telp 1  : '' @ or_dash (nomor_telp_1 s)
     @ nl @ ''   Telp 2  : '' @ or_dash (nomor_telp_2 s)
     @ nl @ ''   Ruang OK: '' @ or_dash (ruang_operasi s)
     @ nl @ ''   Diagnosis: '' @ or_dash (diagnosis s)"

text \<open>The per-event block of the \<open>POST /api/cron/whatsapp-resend\<close> handler.\<close>

definition cron_resend_line :: "surgery \<Rightarrow> nat \<Rightarrow> string" where
  "cron_resend_line s i =
     show_nat (i + 1) @ ''. '' @ template (nama_pasien s) @ '' ('' @ or_dash (no_rekam_medis s) @ '')''
     @ nl @ ''   Dokter Operator: '' @ or_dash (dokter_operator s)
     @ nl @ ''   Dokter Anestesi: '' @ or_dash (dokter_anestesi s)
     @ nl @ ''   Jam     : '' @ jam s
     @ nl @ ''   Jenis   : '' @ or_dash (jenis_operasi s)
     @ nl @ ''   Telp 1  : '' @ or_dash (nomor_telp_1 s)
     @ nl @ ''   Telp 2  : '' @ or_dash (nomor_telp_2 s)
     @ nl @ ''   Diagnosis: '' @ or_dash (diagnosis s)"

text \<open>The per-event block of the \<open>POST /api/whatsapp/resend\<close> handler.\<close>

definition wa_resend_line :: "surgery \<Rightarrow> nat \<Rightarrow> string" where
  "wa_resend_line s i =
     show_nat (i + 1) @ ''. '' @ template (nama_pasien s) @ '' ('' @ or_dash (no_rekam_medis s) @ '')''
     @ nl @ ''   Dokter Operator: '' @ or_dash (dokter_operator s)
     @ nl @ ''   Dokter Anestesi: '' @ or_dash (dokter_anestesi s)
     @ nl @ ''   Jam     : '' @ jam s
     @ nl @ ''   Jenis   : '' @ or_dash (jenis_operasi s)
     @ nl @ ''   Telp 1  : '' @ or_dash (nomor_telp_1 s)
     @ nl @ ''   Telp 2  : '' @ or_dash (nomor_telp_2 s)
     @ nl @ ''   Ruang OK: '' @ or_dash (ruang_operasi s)
     @ nl @ ''   Diagnosis: '' @ or_dash (diagnosis s)"

text \<open>\<open>xs.map((s, i) => f(s, i))\<close>: the callback receives the element and its index.\<close>

definition map_indexed :: "('a \<Rightarrow> nat \<Rightarrow> 'b) \<Rightarrow> 'a list \<Rightarrow> 'b list" where
  "map_indexed f xs = map (\<lambda>(i, x). f x i) (enumerate 0 xs)"

definition cron_lines :: "surgery list \<Rightarrow> string" where
  "cron_lines roomSurgeries = join (nl @ nl) (map_indexed cron_line roomSurgeries)"

definition cron_resend_lines :: "surgery list \<Rightarrow> string" where
  "cron_resend_lines surgeries = join (nl @ nl) (map_indexed cron_resend_line surgeries)"

definition wa_resend_lines :: "surgery list \<Rightarrow> string" where
  "wa_resend_lines surgeries = join (nl @ nl) (map_indexed wa_resend_line surgeries)"

text \<open>The three message templates around the line list.\<close>

definition cron_message :: "string \<Rightarrow> string \<Rightarrow> surgery list \<Rightarrow> string" where
  "cron_message displayName targetDate roomSurgeries =
     ''Selamat pagi, '' @ displayName @ ''!'' @ nl @ nl
     @ ''Informasi jadwal operasi *H-2* ('' @ targetDate @ ''):'' @ nl @ nl
     @ cron_lines roomSurgeries @ nl @ nl
     @ ''Total: '' @ show_nat (length roomSurgeries) @ '' operasi.'' @ nl @ nl
     @ ''_Pesan ini dikirim otomatis oleh SORA (Smart Operating Room Access)._''"

definition cron_resend_message :: "string \<Rightarrow> string \<Rightarrow> surgery list \<Rightarrow> string" where
  "cron_resend_message displayName date surgeries =
     ''Selamat pagi, '' @ displayName @ ''!'' @ nl @ nl
     @ ''Informasi jadwal operasi *H-2* ('' @ date @ ''):'' @ nl @ nl
     @ cron_resend_lines surgeries @ nl @ nl
     @ ''Total: '' @ show_nat (length surgeries) @ '' operasi.'' @ nl @ nl
     @ ''_Pesan ini dikirim otomatis via SORA (Manual Resend)._''"

definition wa_resend_message :: "string \<Rightarrow> string \<Rightarrow> surgery list \<Rightarrow> string" where
  "wa_resend_message displayName targetDate surgeries =
     ''Selamat pagi, '' @ displayName @ ''!'' @ nl @ nl
     @ ''Informasi jadwal operasi ('' @ targetDate @ ''):'' @ nl @ nl
     @ wa_resend_lines surgeries @ nl @ nl
     @ ''Total: '' @ show_nat (length surgeries) @ '' operasi.'' @ nl @ nl
     @ ''_Pesan ini dikirim otomatis via SORA (Manual Resend)._''"

section \<open>Message sender\<close>

text \<open>
  The provider's JSON reply to the POST. The sender reads one thing from it: whether
  its \<open>status\<close> field is the boolean \<open>true\<close>. The rest is kept as raw text.
\<close>

record provider_reply =
  status_is_true :: bool
  raw :: string

text \<open>What \<open>fetch\<close> followed by \<open>response.json()\<close> does: it yields a reply or throws.\<close>

datatype fetch_outcome = Replied provider_reply | Threw string

text \<open>
  The object \<open>sendWhatsAppMessage\<close> returns; its \<open>status\<close> key, a copy of the
  reply's status, is read nowhere and left out.
\<close>

record send_result =
  success :: bool
  send_error :: "string option"
  response :: "provider_reply option"

section \<open>Execution log store\<close>

text \<open>One group's outcome inside a log entry's details.\<close>

record room_result =
  room :: string
  phone :: "string option"
  status :: string
  surgery_count :: "nat option"
  wa_response :: "send_result option"
  reason :: "string option"
  resent_at :: "nat option"

text \<open>The object that is stringified into the \<open>details\<close> column.\<close>

record details_obj =
  d_targetDate :: "string option"
  d_rooms :: "room_result list option"

text \<open>
  The \<open>details\<close> column of a log row: \<open>null\<close>, a text that \<open>JSON.parse\<close> rejects,
  or the text of an object (identified with the object: \<open>JSON.parse\<close> after
  \<open>JSON.stringify\<close> gives the object back). The handlers write \<open>null\<close> or the
  text of an object with \<open>targetDate\<close> and \<open>rooms\<close>; a text that parses to
  something else is outside the model.
\<close>

datatype stored_details = Null | Unparseable string | Parsed details_obj

text \<open>One row of \<open>cron_job_logs\<close>. Instants are abstract numbers.\<close>

record log_row =
  log_id :: nat
  job_name :: string
  log_status :: string
  summary :: "string option"
  details :: stored_details
  started_at :: "nat option"
  finished_at :: "nat option"
  timestamp :: nat

text \<open>
  What the handlers can change: the log table, and the POSTs issued to the messaging
  provider (destination and message body, oldest first).
\<close>

record world =
  cron_job_logs :: "log_row list"
  outbox :: "(string \<times> string) list"

text \<open>One row of \<open>mst_parameter\<close>, with the two selected columns.\<close>

record param =
  param_name :: "string option"
  param_value :: "string option"

text \<open>
  What a request reads from outside: the process environment, the clock, the messaging
  provider and the answers of the store to the queries on \<open>pendaftaran_operasi\<close> and
  \<open>mst_parameter\<close>. A query answers \<open>Inl\<close> with the error's message or \<open>Inr\<close> with
  its data.
\<close>

record env =
  FONNTE_TOKEN :: "string option"
  CRON_SECRET :: "string option"
  fetch_send :: "string \<Rightarrow> string \<Rightarrow> fetch_outcome"
  select_surgeries :: "string \<Rightarrow> string option \<Rightarrow> string + surgery list option"
  lookup_param :: "string \<Rightarrow> string + param option"
  select_params :: "string list \<Rightarrow> param list option"
  log_insert_fails :: bool
  log_select_fails :: "string option"
  nowWIB :: nat
  nowWIB_later :: nat
  d2Date :: string
  nowISO :: nat
  nowLocaleTime :: string

definition sendWhatsAppMessage :: "env \<Rightarrow> string \<Rightarrow> string \<Rightarrow> world \<Rightarrow> send_result \<times> world" where
  "sendWhatsAppMessage e target message w =
     (if \<not> truthy (FONNTE_TOKEN e)
      then (\<lparr>success = False, send_error = Some ''FONNTE_TOKEN not set'', response = None\<rparr>, w)
      else
        let w' = w\<lparr>outbox := outbox w @ [(target, message)]\<rparr> in
        case fetch_send e target message of
          Replied result \<Rightarrow>
            (\<lparr>success = status_is_true result, send_error = None, response = Some result\<rparr>, w')
        | Threw msg \<Rightarrow>
            (\<lparr>success = False, send_error = Some msg, response = None\<rparr>, w'))"

text \<open>The identifier a serial key column gives the next inserted row.\<close>

definition next_id :: "log_row list \<Rightarrow> nat" where
  "next_id rows = Suc (fold max (map log_id rows) 0)"

definition job :: string where
  "job = ''daily_whatsapp_notification''"

section \<open>Dispatch orchestrator\<close>

text \<open>
  A plain JavaScript object \<open>{}\<close> used as a dictionary is an association list of its
  own properties in insertion order, together with what it inherits from
  \<open>Object.prototype\<close>: eleven functions and the accessor \<open>__proto__\<close>. A read
  \<open>obj[k]\<close> of a key that is not an own property finds the inherited member, which is
  truthy.
\<close>

definition inherited_functions :: "string list" where
  "inherited_functions =
     [''constructor'', ''__defineGetter__'', ''__defineSetter__'', ''hasOwnProperty'',
      ''__lookupGetter__'', ''__lookupSetter__'', ''isPrototypeOf'', ''propertyIsEnumerable'',
      ''toString'', ''valueOf'', ''toLocaleString'']"

definition inherited :: "string \<Rightarrow> bool" where
  "inherited k = (k \<in> set inherited_functions \<or> k = ''__proto__'')"

definition room_key :: "surgery \<Rightarrow> string" where
  "room_key s = or_else (ruangan_rawat_inap s) ''TIDAK DIKETAHUI''"

text \<open>
  The message of the \<open>TypeError\<close> that \<open>acc[room].push(s)\<close> throws when \<open>acc[room]\<close>
  is an inherited member, which has no \<open>push\<close> (the text is the one of Node's engine).
\<close>

definition push_TypeError :: string where
  "push_TypeError = ''acc[room].push is not a function''"

text \<open>
  The callback of the grouping \<open>reduce\<close>. \<open>!acc[room]\<close> holds only when the room is
  neither an own key nor an inherited name; for an inherited name no array is created
  and the \<open>push\<close> throws.
\<close>

definition group_step ::
  "surgery \<Rightarrow> (string \<times> surgery list) list \<Rightarrow> string + (string \<times> surgery list) list" where
  "group_step s acc =
     (let room = room_key s
      in if map_of acc room = None \<and> inherited room then Inl push_TypeError
         else
           let acc' = (if map_of acc room = None then AList.update room [] acc else acc)
           in Inr (AList.map_entry room (\<lambda>l. l @ [s]) acc'))"

text \<open>\<open>surgeries.reduce(callback, acc)\<close>: a throw of the callback ends it.\<close>

fun reduce_groups ::
  "surgery list \<Rightarrow> (string \<times> surgery list) list \<Rightarrow> string + (string \<times> surgery list) list" where
  "reduce_groups [] acc = Inr acc"
| "reduce_groups (s # ss) acc =
     (case group_step s acc of
        Inl err \<Rightarrow> Inl err
      | Inr acc' \<Rightarrow> reduce_groups ss acc')"

definition groupedByRoom :: "surgery list \<Rightarrow> string + (string \<times> surgery list) list" where
  "groupedByRoom surgeries = reduce_groups surgeries []"

text \<open>
  \<open>Object.keys\<close>: the keys that are array indices (canonical decimal numerals below
  \<open>2^32 - 1\<close>) come first, in ascending numeric order; the others follow in insertion
  order.
\<close>

definition is_digit :: "char \<Rightarrow> bool" where
  "is_digit c = (48 \<le> (of_char c :: nat) \<and> (of_char c :: nat) \<le> 57)"

definition read_nat :: "string \<Rightarrow> nat" where
  "read_nat s = foldl (\<lambda>n c. 10 * n + ((of_char c :: nat) - 48)) 0 s"

definition is_array_index :: "string \<Rightarrow> bool" where
  "is_array_index s =
     (s \<noteq> [] \<and> list_all is_digit s \<and> (s = ''0'' \<or> hd s \<noteq> CHR ''0'') \<and> read_nat s < 2 ^ 32 - 1)"

definition object_keys :: "(string \<times> 'a) list \<Rightarrow> string list" where
  "object_keys obj =
     (let ks = map fst obj
      in sort_key read_nat (filter is_array_index ks) @ filter (\<lambda>k. \<not> is_array_index k) ks)"

text \<open>\<open>obj[k]\<close> for a key that \<open>Object.keys(obj)\<close> returned.\<close>

definition get_group :: "(string \<times> surgery list) list \<Rightarrow> string \<Rightarrow> surgery list" where
  "get_group obj k = (case map_of obj k of Some v \<Rightarrow> v | None \<Rightarrow> [])"

text \<open>The body of the loop over \<open>uniqueRooms\<close>: one \<open>roomResults.push\<close> on every path.\<close>

definition process_room ::
  "env \<Rightarrow> string \<Rightarrow> (string \<times> surgery list) list \<Rightarrow> string \<Rightarrow> world \<Rightarrow> room_result \<times> world" where
  "process_room e targetDate grouped roomName w =
     (case lookup_param e roomName of
        Inl pError \<Rightarrow>
          (let msg = ''Error looking up param for room '' @ dq @ roomName @ dq @ '': '' @ pError
           in (\<lparr>room = roomName, phone = None, status = ''error'', surgery_count = None,
                 wa_response = None, reason = Some msg, resent_at = None\<rparr>, w))
      | Inr prm \<Rightarrow>
          (case prm of
             None \<Rightarrow>
               (let msg = ''No phone number found for room '' @ dq @ roomName @ dq
                          @ '' in mst_parameter, skipping.''
                in (\<lparr>room = roomName, phone = None, status = ''skipped'', surgery_count = None,
                      wa_response = None, reason = Some msg, resent_at = None\<rparr>, w))
           | Some p \<Rightarrow>
               if \<not> truthy (param_value p) then
                 (let msg = ''No phone number found for room '' @ dq @ roomName @ dq
                            @ '' in mst_parameter, skipping.''
                  in (\<lparr>room = roomName, phone = None, status = ''skipped'', surgery_count = None,
                        wa_response = None, reason = Some msg, resent_at = None\<rparr>, w))
               else
                 (let phoneNumber = template (param_value p);
                      displayName = or_else (param_name p) roomName;
                      roomSurgeries = get_group grouped roomName;
                      message = cron_message displayName targetDate roomSurgeries;
                      (sendResult, w') = sendWhatsAppMessage e phoneNumber message w
                  in (\<lparr>room = roomName, phone = Some phoneNumber,
                        status = (if success sendResult then ''sent'' else ''send_failed''),
                        surgery_count = Some (length roomSurgeries),
                        wa_response = Some sendResult, reason = None, resent_at = None\<rparr>, w'))))"

fun process_rooms ::
  "env \<Rightarrow> string \<Rightarrow> (string \<times> surgery list) list \<Rightarrow> string list \<Rightarrow> room_result list \<Rightarrow> world
   \<Rightarrow> room_result list \<times> world" where
  "process_rooms e targetDate grouped [] roomResults w = (roomResults, w)"
| "process_rooms e targetDate grouped (roomName # rest) roomResults w =
     (let (r, w') = process_room e targetDate grouped roomName w
      in process_rooms e targetDate grouped rest (roomResults @ [r]) w')"

text \<open>\<open>updateLog\<close>: nothing without a log identifier, else an update of the rows with it.\<close>

definition updateLog ::
  "env \<Rightarrow> nat option \<Rightarrow> string \<Rightarrow> string \<Rightarrow> details_obj option \<Rightarrow> world \<Rightarrow> world" where
  "updateLog e logId st summ dets w =
     (case logId of
        None \<Rightarrow> w
      | Some i \<Rightarrow>
          w\<lparr>cron_job_logs :=
              map (\<lambda>r. if log_id r = i
                        then r\<lparr>log_status := st, summary := Some summ,
                               details := (case dets of None \<Rightarrow> Null | Some d \<Rightarrow> Parsed d),
                               finished_at := Some (nowWIB_later e)\<rparr>
                        else r)
                  (cron_job_logs w)\<rparr>)"

text \<open>What \<open>runDailyWhatsAppJob\<close> returns; the error outcome has the first two fields only.\<close>

record run_outcome =
  r_status :: string
  r_summary :: string
  r_targetDate :: "string option"
  r_rooms :: "room_result list option"
  r_total_surgeries :: "nat option"

text \<open>The insert of the \<open>running\<close> row, and \<open>logRow?.id || null\<close>.\<close>

definition insert_running :: "env \<Rightarrow> world \<Rightarrow> nat option \<times> world" where
  "insert_running e w =
     (if log_insert_fails e then (None, w)
      else
        let i = next_id (cron_job_logs w);
            logRow = \<lparr>log_id = i, job_name = job, log_status = ''running'', summary = None,
                      details = Null, started_at = Some (nowWIB e), finished_at = None,
                      timestamp = nowWIB e\<rparr>
        in (if i = 0 then None else Some i, w\<lparr>cron_job_logs := cron_job_logs w @ [logRow]\<rparr>))"

text \<open>
  The job. An exception inside its \<open>try\<close> (the failed query, the throw of the
  grouping) goes to the \<open>catch\<close>, which marks the log row \<open>error\<close>.
\<close>

definition runDailyWhatsAppJob :: "env \<Rightarrow> world \<Rightarrow> run_outcome \<times> world" where
  "runDailyWhatsAppJob e w =
     (let (logId, w1) = insert_running e w;
          targetDate = d2Date e
      in case select_surgeries e targetDate None of
           Inl sError \<Rightarrow>
             (let summ = ''Job failed: '' @ sError
              in (\<lparr>r_status = ''error'', r_summary = summ, r_targetDate = None,
                    r_rooms = None, r_total_surgeries = None\<rparr>,
                  updateLog e logId ''error'' summ None w1))
         | Inr data \<Rightarrow>
             (let surgeries = (case data of None \<Rightarrow> [] | Some l \<Rightarrow> l)
              in if surgeries = [] then
                   (let msg = ''No surgeries found for '' @ targetDate @ ''. No messages sent.''
                    in (\<lparr>r_status = ''success'', r_summary = msg, r_targetDate = Some targetDate,
                          r_rooms = Some [], r_total_surgeries = Some 0\<rparr>,
                        updateLog e logId ''success'' msg None w1))
                 else
                   (case groupedByRoom surgeries of
                      Inl err \<Rightarrow>
                        (let summ = ''Job failed: '' @ err
                         in (\<lparr>r_status = ''error'', r_summary = summ, r_targetDate = None,
                               r_rooms = None, r_total_surgeries = None\<rparr>,
                             updateLog e logId ''error'' summ None w1))
                    | Inr grouped \<Rightarrow>
                        (let uniqueRooms = object_keys grouped;
                             (roomResults, w2) =
                                process_rooms e targetDate grouped uniqueRooms [] w1;
                             summ = ''Job completed for '' @ targetDate @ ''. Rooms processed: ''
                                    @ show_nat (length uniqueRooms) @ ''. Total surgeries: ''
                                    @ show_nat (length surgeries) @ ''.''
                         in (\<lparr>r_status = ''success'', r_summary = summ,
                               r_targetDate = Some targetDate, r_rooms = Some roomResults,
                               r_total_surgeries = Some (length surgeries)\<rparr>,
                             updateLog e logId ''success'' summ
                               (Some \<lparr>d_targetDate = Some targetDate, d_rooms = Some roomResults\<rparr>)
                               w2)))))"

section \<open>Trigger gateway\<close>

text \<open>The reply of \<open>GET /api/cron/whatsapp-daily\<close>: an error status, or the job's outcome.\<close>

datatype daily_response = DailyError nat string | DailyOk run_outcome

definition isVercelCron :: "(string \<rightharpoonup> string) \<Rightarrow> bool" where
  "isVercelCron headers = (headers ''x-vercel-cron'' = Some ''1'')"

definition isAuthorized :: "env \<Rightarrow> (string \<rightharpoonup> string) \<Rightarrow> bool" where
  "isAuthorized e headers =
     (truthy (CRON_SECRET e) \<and> headers ''authorization'' = Some (''Bearer '' @ template (CRON_SECRET e)))"

definition whatsapp_daily :: "env \<Rightarrow> (string \<rightharpoonup> string) \<Rightarrow> world \<Rightarrow> daily_response \<times> world" where
  "whatsapp_daily e headers w =
     (if \<not> isVercelCron headers \<and> \<not> isAuthorized e headers
      then (DailyError 401 ''Unauthorized'', w)
      else let (result, w') = runDailyWhatsAppJob e w in (DailyOk result, w'))"

section \<open>Queries on the log table\<close>

text \<open>
  \<open>.ilike('summary', `%${date}%`)\<close>: the summary contains the date, letters compared
  without case; a \<open>null\<close> summary matches nothing. The date is taken to hold no
  wildcard of the pattern language.
\<close>

definition lower :: "char \<Rightarrow> char" where
  "lower c = (let n = (of_char c :: nat) in if 65 \<le> n \<and> n \<le> 90 then char_of (n + 32) else c)"

definition ilike_contains :: "string option \<Rightarrow> string \<Rightarrow> bool" where
  "ilike_contains summ date =
     (case summ of None \<Rightarrow> False | Some s \<Rightarrow> sublist (map lower date) (map lower s))"

text \<open>
  \<open>.order('timestamp', { ascending: false }).limit(1)\<close>: a row with the greatest
  timestamp; among equal ones, the first of the table.
\<close>

fun latest :: "log_row list \<Rightarrow> log_row option" where
  "latest [] = None"
| "latest (r # rs) =
     (case latest rs of
        None \<Rightarrow> Some r
      | Some r' \<Rightarrow> if timestamp r < timestamp r' then Some r' else Some r)"

definition select_latest_log :: "log_row list \<Rightarrow> string \<Rightarrow> log_row option" where
  "select_latest_log rows date =
     latest (filter (\<lambda>r. job_name r = job \<and> ilike_contains (summary r) date) rows)"

section \<open>Reconciliation reporter\<close>

text \<open>
  A value of the counting object: a number, or the text that \<open>+ 1\<close> makes of an
  inherited function: the function's source text followed by as many \<open>1\<close> as there
  were events.
\<close>

datatype count = Count nat | FnText string nat

definition count_text :: "count \<Rightarrow> string" where
  "count_text c =
     (case c of
        Count n \<Rightarrow> show_nat n
      | FnText k n \<Rightarrow> ''function '' @ (if k = ''constructor'' then ''Object'' else k)
                      @ ''() { [native code] }'' @ replicate n (CHR ''1''))"

text \<open>
  The callback of the counting \<open>reduce\<close>, \<open>acc[room] = (acc[room] || 0) + 1\<close>. For an
  inherited function that is not yet an own key the sum is a text, stored as an own
  property; for \<open>__proto__\<close> the assignment goes to the inherited setter, which
  ignores a text, and the object stays as it is.
\<close>

definition count_step :: "surgery \<Rightarrow> (string \<times> count) list \<Rightarrow> (string \<times> count) list" where
  "count_step s acc =
     (let room = room_key s
      in case map_of acc room of
           Some (Count n) \<Rightarrow> AList.update room (Count (n + 1)) acc
         | Some (FnText k n) \<Rightarrow> AList.update room (FnText k (n + 1)) acc
         | None \<Rightarrow>
             if room = ''__proto__'' then acc
             else if room \<in> set inherited_functions then AList.update room (FnText room 1) acc
             else AList.update room (Count 1) acc)"

definition roomCounts :: "surgery list \<Rightarrow> (string \<times> count) list" where
  "roomCounts surgeries = fold count_step surgeries []"

text \<open>\<open>roomCounts[room]\<close>, read at the own keys of the object only.\<close>

definition get_count :: "(string \<times> count) list \<Rightarrow> string \<Rightarrow> count" where
  "get_count obj k = (case map_of obj k of Some c \<Rightarrow> c | None \<Rightarrow> Count 0)"

text \<open>\<open>c > n\<close> for a count \<open>c\<close>: a text of a function is not a number and compares false.\<close>

definition count_gt :: "count \<Rightarrow> nat \<Rightarrow> bool" where
  "count_gt c n = (case c of Count m \<Rightarrow> n < m | FnText k m \<Rightarrow> False)"

text \<open>
  The object of the phone numbers: its own properties, and whether its prototype has
  been set to \<open>null\<close>. An assignment to \<open>__proto__\<close> goes to the inherited setter while
  the prototype is there: \<open>null\<close> removes the prototype, a text is ignored.
\<close>

record phones_obj =
  ph_own :: "string \<rightharpoonup> string option"
  ph_null_proto :: bool

definition phones_set :: "param \<Rightarrow> phones_obj \<Rightarrow> phones_obj" where
  "phones_set p acc =
     (let k = template (param_name p); v = param_value p
      in if k = ''__proto__'' \<and> \<not> ph_null_proto acc
         then (if v = None then acc\<lparr>ph_null_proto := True\<rparr> else acc)
         else acc\<lparr>ph_own := (ph_own acc)(k \<mapsto> v)\<rparr>)"

definition roomPhones :: "param list \<Rightarrow> phones_obj" where
  "roomPhones roomParams = fold phones_set roomParams \<lparr>ph_own = Map.empty, ph_null_proto = False\<rparr>"

text \<open>A phone in the report: \<open>null\<close>, a text, or an inherited member of the object.\<close>

datatype phone_value = NoPhone | Phone string | Member string

text \<open>\<open>roomPhones[room] || null\<close>.\<close>

definition phones_get :: "phones_obj \<Rightarrow> string \<Rightarrow> phone_value" where
  "phones_get obj k =
     (case ph_own obj k of
        Some v \<Rightarrow> (case v of None \<Rightarrow> NoPhone | Some t \<Rightarrow> if t = [] then NoPhone else Phone t)
      | None \<Rightarrow> if \<not> ph_null_proto obj \<and> inherited k then Member k else NoPhone)"

text \<open>\<open>v || null\<close>.\<close>

definition or_null :: "string option \<Rightarrow> string option" where
  "or_null v = (if truthy v then v else None)"

record log_entry =
  le_status :: string
  le_phone :: "string option"
  le_reason :: "string option"

text \<open>
  The object of the logged results: its own properties, and the entry that an
  assignment to \<open>__proto__\<close> made its prototype, if any (the inherited setter accepts
  an object). That entry's own prototype is \<open>Object.prototype\<close>.
\<close>

record results_obj =
  res_own :: "string \<rightharpoonup> log_entry"
  res_proto :: "log_entry option"

text \<open>The entry that step 6 of the status handler makes of a logged room result.\<close>

definition entry_of :: "room_result \<Rightarrow> log_entry" where
  "entry_of r = \<lparr>le_status = status r, le_phone = or_null (phone r), le_reason = or_null (reason r)\<rparr>"

text \<open>\<open>logResults[r.room] = {...}\<close>.\<close>

definition results_set :: "room_result \<Rightarrow> results_obj \<Rightarrow> results_obj" where
  "results_set r acc =
     (if room r = ''__proto__'' then acc\<lparr>res_proto := Some (entry_of r)\<rparr>
      else acc\<lparr>res_own := (res_own acc)(room r \<mapsto> entry_of r)\<rparr>)"

text \<open>
  What \<open>logResults[room]\<close> reads, as far as the handler tells the values apart:
  nothing (a falsy value), an entry, or a truthy value that is no entry (an inherited
  function or object, or a text of the prototype entry), whose \<open>status\<close>, \<open>phone\<close>
  and \<open>reason\<close> are undefined.
\<close>

datatype log_lookup = NoEntry | Entry log_entry | Foreign

definition results_get :: "results_obj \<Rightarrow> string \<Rightarrow> log_lookup" where
  "results_get obj k =
     (case res_own obj k of
        Some entry \<Rightarrow> Entry entry
      | None \<Rightarrow>
          (case res_proto obj of
             Some entry \<Rightarrow>
               if k = ''__proto__'' then Entry entry
               else if k = ''status'' then (if le_status entry = [] then NoEntry else Foreign)
               else if k = ''phone'' then (if truthy (le_phone entry) then Foreign else NoEntry)
               else if k = ''reason'' then (if truthy (le_reason entry) then Foreign else NoEntry)
               else if k \<in> set inherited_functions then Foreign else NoEntry
           | None \<Rightarrow> if inherited k then Foreign else NoEntry))"

text \<open>Step 6 of the status handler: the logged results by room; a later one overwrites.\<close>

definition logResults :: "log_row option \<Rightarrow> results_obj" where
  "logResults latestLog =
     (case latestLog of
        None \<Rightarrow> \<lparr>res_own = Map.empty, res_proto = None\<rparr>
      | Some l \<Rightarrow>
          (case details l of
             Null \<Rightarrow> \<lparr>res_own = Map.empty, res_proto = None\<rparr>
           | Unparseable t \<Rightarrow> \<lparr>res_own = Map.empty, res_proto = None\<rparr>
           | Parsed detailsObj \<Rightarrow>
               (case d_rooms detailsObj of
                  None \<Rightarrow> \<lparr>res_own = Map.empty, res_proto = None\<rparr>
                | Some rs \<Rightarrow> fold results_set rs \<lparr>res_own = Map.empty, res_proto = None\<rparr>)))"

text \<open>The second parse inside the loop: \<open>rooms?.find(...)\<close>, then \<open>surgery_count || 0\<close>.\<close>

definition logSurgeryCount :: "log_row option \<Rightarrow> string \<Rightarrow> nat" where
  "logSurgeryCount latestLog rm =
     (case latestLog of
        None \<Rightarrow> 0
      | Some l \<Rightarrow>
          (case details l of
             Null \<Rightarrow> 0
           | Unparseable t \<Rightarrow> 0
           | Parsed detailsObj \<Rightarrow>
               (case d_rooms detailsObj of
                  None \<Rightarrow> 0
                | Some rs \<Rightarrow>
                    (case find (\<lambda>r. room r = rm) rs of
                       None \<Rightarrow> 0
                     | Some roomLog \<Rightarrow> (case surgery_count roomLog of None \<Rightarrow> 0 | Some n \<Rightarrow> n)))))"

text \<open>
  One entry of the report. \<open>None\<close> in \<open>st_status\<close> and \<open>st_failure_reason\<close> stands
  for a value that is \<open>undefined\<close> or \<open>null\<close>.
\<close>

record room_status =
  st_room :: string
  st_surgery_count :: count
  st_log_surgery_count :: nat
  st_has_updates :: bool
  st_status :: "string option"
  st_phone :: phone_value
  st_failure_reason :: "string option"
  st_last_attempt :: "nat option"

text \<open>Step 7 of the status handler: the callback of \<open>uniqueRooms.map\<close>.\<close>

definition room_report ::
  "(string \<times> count) list \<Rightarrow> phones_obj \<Rightarrow> log_row option \<Rightarrow> string \<Rightarrow> room_status" where
  "room_report counts phones latestLog rm =
     (let phone0 = phones_get phones rm;
          last_attempt = (case latestLog of None \<Rightarrow> None | Some l \<Rightarrow> Some (timestamp l))
      in case results_get (logResults latestLog) rm of
           Entry logEntry \<Rightarrow>
             (let st = le_status logEntry;
                  ph = (case le_phone logEntry of
                          None \<Rightarrow> phone0
                        | Some t \<Rightarrow> if t = [] then phone0 else Phone t);
                  cnt = logSurgeryCount latestLog rm
              in \<lparr>st_room = rm, st_surgery_count = get_count counts rm,
                   st_log_surgery_count = cnt,
                   st_has_updates = (st = ''sent'' \<and> count_gt (get_count counts rm) cnt),
                   st_status = Some st, st_phone = ph, st_failure_reason = le_reason logEntry,
                   st_last_attempt = last_attempt\<rparr>)
         | Foreign \<Rightarrow>
             \<lparr>st_room = rm, st_surgery_count = get_count counts rm,
              st_log_surgery_count = logSurgeryCount latestLog rm,
              st_has_updates = False,
              st_status = None, st_phone = phone0, st_failure_reason = None,
              st_last_attempt = last_attempt\<rparr>
         | NoEntry \<Rightarrow>
             \<lparr>st_room = rm, st_surgery_count = get_count counts rm,
              st_log_surgery_count = 0,
              st_has_updates = count_gt (get_count counts rm) 0,
              st_status = Some ''need_resend'', st_phone = phone0, st_failure_reason = None,
              st_last_attempt = last_attempt\<rparr>)"

record status_report =
  target_date :: string
  total_surgeries :: nat
  rooms :: "room_status list"
  overall_log_status :: string

text \<open>
  \<open>GET /api/cron/whatsapp-status\<close> from its step 2 on: \<open>date\<close> is the target date
  that step 1 computed from the query parameters and the clock.
\<close>

definition whatsapp_status :: "env \<Rightarrow> string \<Rightarrow> world \<Rightarrow> (nat \<times> string) + status_report" where
  "whatsapp_status e date w =
     (case select_surgeries e date None of
        Inl sError \<Rightarrow> Inl (500, ''Internal server error'')
      | Inr data \<Rightarrow>
          (let surgeries = (case data of None \<Rightarrow> [] | Some l \<Rightarrow> l);
               counts = roomCounts surgeries;
               uniqueRooms = object_keys counts;
               phones = roomPhones (case select_params e uniqueRooms of None \<Rightarrow> [] | Some ps \<Rightarrow> ps)
           in case log_select_fails e of
                Some lError \<Rightarrow> Inl (500, ''Internal server error'')
              | None \<Rightarrow>
                  (let latestLog = select_latest_log (cron_job_logs w) date
                   in Inr \<lparr>target_date = date, total_surgeries = length surgeries,
                           rooms = map (room_report counts phones latestLog) uniqueRooms,
                           overall_log_status =
                             (case latestLog of None \<Rightarrow> ''no_log_found'' | Some l \<Rightarrow> log_status l)\<rparr>)))"

section \<open>Manual resend handler\<close>

text \<open>\<open>findIndex\<close>, with \<open>None\<close> for \<open>-1\<close>.\<close>

fun findIndex :: "('a \<Rightarrow> bool) \<Rightarrow> 'a list \<Rightarrow> nat option" where
  "findIndex P [] = None"
| "findIndex P (x # xs) =
     (if P x then Some 0 else (case findIndex P xs of None \<Rightarrow> None | Some i \<Rightarrow> Some (Suc i)))"

text \<open>The upsert of the room result into \<open>details.rooms\<close>.\<close>

definition upsert_room :: "string \<Rightarrow> room_result \<Rightarrow> room_result list \<Rightarrow> room_result list" where
  "upsert_room rm resendStatus rs =
     (case findIndex (\<lambda>r. room r = rm) rs of
        Some roomIdx \<Rightarrow> rs[roomIdx := resendStatus]
      | None \<Rightarrow> rs @ [resendStatus])"

text \<open>The parse of the matched row's details, with \<open>{}\<close> when it is null or throws.\<close>

definition parse_or_empty :: "stored_details \<Rightarrow> details_obj" where
  "parse_or_empty d =
     (case d of
        Null \<Rightarrow> \<lparr>d_targetDate = None, d_rooms = None\<rparr>
      | Unparseable t \<Rightarrow> \<lparr>d_targetDate = None, d_rooms = None\<rparr>
      | Parsed obj \<Rightarrow> obj)"

text \<open>Step 5 of the resend handlers: merge into the matched row, or insert a new row.\<close>

definition merge_log :: "env \<Rightarrow> string \<Rightarrow> string \<Rightarrow> send_result \<Rightarrow> room_result \<Rightarrow> world \<Rightarrow> world" where
  "merge_log e date rm sendResult resendStatus w =
     (let latestLog = (case log_select_fails e of
                         Some err \<Rightarrow> None
                       | None \<Rightarrow> select_latest_log (cron_job_logs w) date)
      in case latestLog of
           Some l \<Rightarrow>
             (let dets = parse_or_empty (details l);
                  rs = (case d_rooms dets of None \<Rightarrow> [] | Some x \<Rightarrow> x);
                  dets' = dets\<lparr>d_rooms := Some (upsert_room rm resendStatus rs)\<rparr>;
                  summ = template (summary l) @ '' (Manual resend for '' @ rm @ '' at ''
                         @ nowLocaleTime e @ '')''
              in w\<lparr>cron_job_logs :=
                     map (\<lambda>r. if log_id r = log_id l
                               then r\<lparr>details := Parsed dets', summary := Some summ\<rparr> else r)
                         (cron_job_logs w)\<rparr>)
         | None \<Rightarrow>
             w\<lparr>cron_job_logs := cron_job_logs w @
                 [\<lparr>log_id = next_id (cron_job_logs w), job_name = job,
                   log_status = (if success sendResult then ''success'' else ''error''),
                   summary = Some (''Manual resend for room '' @ rm @ '' on date '' @ date),
                   details = Parsed \<lparr>d_targetDate = Some date, d_rooms = Some [resendStatus]\<rparr>,
                   started_at = Some (nowISO e), finished_at = Some (nowISO e),
                   timestamp = nowISO e\<rparr>]\<rparr>)"

text \<open>The reply of a resend handler: an error status with its text, or the 200 payload.\<close>

datatype resend_response = ResendError nat string | ResendOk bool send_result

text \<open>
  The two resend handlers have the same body but for the name of the date parameter in
  the validation text and the message template; \<open>label\<close> and \<open>compose\<close> stand for these.
\<close>

definition resend ::
  "string \<Rightarrow> (string \<Rightarrow> string \<Rightarrow> surgery list \<Rightarrow> string) \<Rightarrow> env \<Rightarrow> string option \<Rightarrow> string option \<Rightarrow> world
   \<Rightarrow> resend_response \<times> world" where
  "resend label compose e req_date req_room w =
     (if \<not> truthy req_date \<or> \<not> truthy req_room
      then (ResendError 400 (label @ '' and room are required''), w)
      else
        let date = template req_date; rm = template req_room
        in case select_surgeries e date (Some rm) of
             Inl sError \<Rightarrow> (ResendError 500 ''Internal server error'', w)
           | Inr data \<Rightarrow>
               (let surgeries = (case data of None \<Rightarrow> [] | Some l \<Rightarrow> l)
                in if surgeries = [] then
                     (ResendError 404 (''No surgeries found for room '' @ dq @ rm @ dq @ '' on ''
                                       @ date @ ''.''), w)
                   else
                     case lookup_param e rm of
                       Inl pError \<Rightarrow> (ResendError 500 ''Internal server error'', w)
                     | Inr prm \<Rightarrow>
                         if \<not> truthy (case prm of None \<Rightarrow> None | Some p \<Rightarrow> param_value p) then
                           (ResendError 400 (''No phone number configured for room '' @ dq @ rm
                                             @ dq @ ''.''), w)
                         else
                           (let phoneNumber = template (case prm of None \<Rightarrow> None | Some p \<Rightarrow> param_value p);
                                displayName = or_else (case prm of None \<Rightarrow> None | Some p \<Rightarrow> param_name p) rm;
                                message = compose displayName date surgeries;
                                (sendResult, w1) = sendWhatsAppMessage e phoneNumber message w;
                                resendStatus =
                                  \<lparr>room = rm, phone = Some phoneNumber,
                                   status = (if success sendResult then ''sent'' else ''send_failed''),
                                   surgery_count = Some (length surgeries),
                                   wa_response = Some sendResult, reason = None,
                                   resent_at = Some (nowISO e)\<rparr>
                            in (ResendOk (success sendResult) sendResult,
                                merge_log e date rm sendResult resendStatus w1))))"

definition cron_whatsapp_resend ::
  "env \<Rightarrow> string option \<Rightarrow> string option \<Rightarrow> world \<Rightarrow> resend_response \<times> world" where
  "cron_whatsapp_resend = resend ''date'' cron_resend_message"

definition whatsapp_resend ::
  "env \<Rightarrow> string option \<Rightarrow> string option \<Rightarrow> world \<Rightarrow> resend_response \<times> world" where
  "whatsapp_resend = resend ''targetDate'' wa_resend_message"


section \<open>The composition rule as the specification words it\<close>

text \<open>A field is absent when it is \<open>null\<close> or empty.\<close>

definition absent :: "string option \<Rightarrow> bool" where
  "absent v = (v = None \<or> v = Some [])"

text \<open>A field rendered as a placeholder dash when absent.\<close>

definition spec_field :: "string option \<Rightarrow> string" where
  "spec_field v = (if absent v then ''-'' else the v)"

text \<open>The time, hour and minute only, or the dash.\<close>

definition spec_time :: "string option \<Rightarrow> string" where
  "spec_time v = (if absent v then ''-'' else take 5 (the v))"

text \<open>The fields after the patient name, in the layout of the orchestrator's message.\<close>

definition spec_fields :: "surgery \<Rightarrow> string" where
  "spec_fields s =
     '' ('' @ spec_field (no_rekam_medis s) @ '')''
     @ nl @ ''   Dokter Operator: '' @ spec_field (dokter_operator s)
     @ nl @ ''   Dokter Anestesi: '' @ spec_field (dokter_anestesi s)
     @ nl @ ''   Jam     : '' @ spec_time (jam_rencana_operasi s)
     @ nl @ ''   Jenis   : '' @ spec_field (jenis_operasi s)
     @ nl @ ''   Telp 1  : '' @ spec_field (nomor_telp_1 s)
     @ nl @ ''   Telp 2  : '' @ spec_field (nomor_telp_2 s)
     @ nl @ ''   Ruang OK: '' @ spec_field (ruang_operasi s)
     @ nl @ ''   Diagnosis: '' @ spec_field (diagnosis s)"

text \<open>The numbered block of one event, every field a dash when absent.\<close>

definition spec_block :: "nat \<Rightarrow> surgery \<Rightarrow> string" where
  "spec_block n s = show_nat n @ ''. '' @ spec_field (nama_pasien s) @ spec_fields s"

section \<open>Notions the claims about the orchestrator are stated with\<close>

text \<open>A group's destination resolves: the lookup answers with an active rule whose address is not empty.\<close>

definition resolves :: "env \<Rightarrow> string \<Rightarrow> bool" where
  "resolves e k =
     (case lookup_param e k of
        Inl pError \<Rightarrow> False
      | Inr None \<Rightarrow> False
      | Inr (Some p) \<Rightarrow> truthy (param_value p))"

text \<open>
  A send to a destination succeeds: the provider token is set, the POST returns and the
  reply's status is \<open>true\<close>.
\<close>

definition delivered :: "env \<Rightarrow> string \<Rightarrow> string \<Rightarrow> bool" where
  "delivered e target message =
     (truthy (FONNTE_TOKEN e)
      \<and> (case fetch_send e target message of Replied r \<Rightarrow> status_is_true r | Threw x \<Rightarrow> False))"

text \<open>The sum of the \<open>surgery_count\<close> fields of a list of room results; a missing field adds nothing.\<close>

definition count_sum :: "room_result list \<Rightarrow> nat" where
  "count_sum rs = sum_list (map (\<lambda>r. case surgery_count r of None \<Rightarrow> 0 | Some n \<Rightarrow> n) rs)"

text \<open>The row that a completed run leaves in the log table.\<close>

definition finished_row :: "env \<Rightarrow> world \<Rightarrow> string \<Rightarrow> stored_details \<Rightarrow> log_row" where
  "finished_row e w summ dets =
     \<lparr>log_id = next_id (cron_job_logs w), job_name = job, log_status = ''success'',
      summary = Some summ, details = dets, started_at = Some (nowWIB e),
      finished_at = Some (nowWIB_later e), timestamp = nowWIB e\<rparr>"

section \<open>Notions the claims about the log are stated with\<close>

text \<open>
  The room results that a matched log row holds: the \<open>rooms\<close> of its parsed details,
  none when there is no row, no details, details that do not parse, or no \<open>rooms\<close>.
\<close>

definition logged_rooms :: "log_row option \<Rightarrow> room_result list" where
  "logged_rooms latestLog =
     (case latestLog of
        None \<Rightarrow> []
      | Some l \<Rightarrow>
          (case details l of
             Null \<Rightarrow> []
           | Unparseable t \<Rightarrow> []
           | Parsed obj \<Rightarrow> (case d_rooms obj of None \<Rightarrow> [] | Some rs \<Rightarrow> rs)))"

text \<open>Within one log row, at most one room result per grouping key.\<close>

definition rooms_unique :: "log_row \<Rightarrow> bool" where
  "rooms_unique r = distinct (map room (logged_rooms (Some r)))"

text \<open>
  A well-formed log table: the identifier is a key, and every row has at most one room
  result per grouping key.
\<close>

definition store_ok :: "world \<Rightarrow> bool" where
  "store_ok w =
     (distinct (map log_id (cron_job_logs w)) \<and> (\<forall>r \<in> set (cron_job_logs w). rooms_unique r))"

section \<open>Concrete data\<close>

definition ev :: surgery where
  "ev = \<lparr>nama_pasien = Some ''Budi'', no_rekam_medis = Some ''RM1'', dokter_operator = None,
     dokter_anestesi = Some '''', jam_rencana_operasi = Some ''08:30:00'',
     jenis_operasi = Some ''ELEKTIF'', ruangan_rawat_inap = Some ''Ward A'', diagnosis = None,
     nomor_telp_1 = None, nomor_telp_2 = None, ruang_operasi = Some ''OK 1''\<rparr>"

definition ev_noname :: surgery where
  "ev_noname = ev\<lparr>nama_pasien := None\<rparr>"

text \<open>An event whose room is named like an inherited member of every object.\<close>

definition ev_ctor :: surgery where
  "ev_ctor = ev\<lparr>nama_pasien := Some ''Tono'', ruangan_rawat_inap := Some ''constructor''\<rparr>"

definition ev_b :: surgery where
  "ev_b = ev\<lparr>nama_pasien := Some ''Sari'', ruangan_rawat_inap := Some ''Ward B''\<rparr>"

text \<open>
  An environment in which Ward A has an active rule and every other room has none; the
  provider accepts every message. The store answers every query on the events with
  \<open>evs\<close>.
\<close>

definition env_of :: "surgery list \<Rightarrow> env" where
  "env_of evs =
     \<lparr>FONNTE_TOKEN = Some ''token'', CRON_SECRET = Some ''secret'',
      fetch_send = (\<lambda>target message. Replied \<lparr>status_is_true = True, raw = ''{}''\<rparr>),
      select_surgeries = (\<lambda>date rm. Inr (Some evs)),
      lookup_param = (\<lambda>k. if k = ''Ward A''
                           then Inr (Some \<lparr>param_name = Some ''Ward A'', param_value = Some ''0811''\<rparr>)
                           else Inr None),
      select_params = (\<lambda>ks. Some (if ''Ward A'' \<in> set ks
                                    then [\<lparr>param_name = Some ''Ward A'', param_value = Some ''0811''\<rparr>]
                                    else [])),
      log_insert_fails = False, log_select_fails = None,
      nowWIB = 100, nowWIB_later = 101, d2Date = ''2024-05-03'', nowISO = 200,
      nowLocaleTime = ''10:00:00''\<rparr>"

definition w_empty :: world where
  "w_empty = \<lparr>cron_job_logs = [], outbox = []\<rparr>"

text \<open>
  A log table with the row of a completed run for 2024-05-03: Ward A sent with one
  event, Ward B skipped.
\<close>

definition rr_a :: room_result where
  "rr_a = \<lparr>room = ''Ward A'', phone = Some ''0811'', status = ''sent'', surgery_count = Some 1,
           wa_response = Some \<lparr>success = True, send_error = None,
                                 response = Some \<lparr>status_is_true = True, raw = ''{}''\<rparr>\<rparr>,
           reason = None, resent_at = None\<rparr>"

definition rr_b :: room_result where
  "rr_b = \<lparr>room = ''Ward B'', phone = None, status = ''skipped'', surgery_count = None,
           wa_response = None, reason = Some ''No phone number found'', resent_at = None\<rparr>"

definition row_1 :: log_row where
  "row_1 = \<lparr>log_id = 1, job_name = ''daily_whatsapp_notification'', log_status = ''success'',
            summary = Some ''Job completed for 2024-05-03. Rooms processed: 2. Total surgeries: 2.'',
            details = Parsed \<lparr>d_targetDate = Some ''2024-05-03'', d_rooms = Some [rr_a, rr_b]\<rparr>,
            started_at = Some 100, finished_at = Some 101, timestamp = 100\<rparr>"

definition w_logged :: world where
  "w_logged = \<lparr>cron_job_logs = [row_1], outbox = []\<rparr>"


text \<open>The reply of the provider in \<open>env_of\<close>, as the sender returns it.\<close>

definition sr_ok :: send_result where
  "sr_ok = \<lparr>success = True, send_error = None,
            response = Some \<lparr>status_is_true = True, raw = ''{}''\<rparr>\<rparr>"

text \<open>The world after one and after two resends for Ward A, from a world \<open>w\<close>.\<close>

definition resent_once :: "world \<Rightarrow> world" where
  "resent_once w =
     snd (cron_whatsapp_resend (env_of [ev]) (Some ''2024-05-03'') (Some ''Ward A'') w)"

definition resent_twice :: "world \<Rightarrow> world" where
  "resent_twice w = resent_once (resent_once w)"


lemma truthy_iff: "truthy v \<longleftrightarrow> (\<exists>s. v = Some s \<and> s \<noteq> [])"
  by (cases v) (simp_all add: truthy_def)

lemma show_nat_1: "show_nat (Suc 0) = ''1''"
  by (simp add: show_nat.simps digit_char_def)

lemma or_dash_spec: "or_dash v = spec_field v"
  by (cases v) (auto simp: or_dash_def spec_field_def absent_def)

lemma jam_spec: "jam s = spec_time (jam_rencana_operasi s)"
  by (cases "jam_rencana_operasi s") (auto simp: jam_def spec_time_def absent_def substring05_def)

lemma cron_line_spec:
  "cron_line s i = show_nat (i + 1) @ ''. '' @ template (nama_pasien s) @ spec_fields s"
  by (simp add: cron_line_def spec_fields_def or_dash_spec jam_spec)

lemma template_present: "\<not> absent v \<Longrightarrow> template v = spec_field v"
  by (cases v) (auto simp: template_def spec_field_def absent_def)

lemma sublist_join: "x \<in> set xs \<Longrightarrow> sublist x (join sep xs)"
proof (induction sep xs rule: join.induct)
  case (1 sep)
  then show ?case by simp
next
  case (2 sep y)
  then show ?case by simp
next
  case (3 sep y z zs)
  show ?case
  proof (cases "x = y")
    case True
    then show ?thesis by (simp add: sublist_append_rightI)
  next
    case False
    with 3 have "sublist x (join sep (z # zs))" by simp
    then have "sublist x ((y @ sep) @ join sep (z # zs))"
      by (simp only: sublist_append) simp
    then show ?thesis by simp
  qed
qed

lemma map_indexed_nth:
  "i < length xs \<Longrightarrow> f (xs ! i) i \<in> set (map_indexed f xs)"
proof -
  assume i: "i < length xs"
  then have "(i, xs ! i) \<in> set (enumerate 0 xs)"
    by (simp add: in_set_enumerate_eq)
  then show ?thesis
    unfolding map_indexed_def set_map by force
qed

lemma length_map_indexed: "length (map_indexed f xs) = length xs"
  by (simp add: map_indexed_def)

lemma cron_message_contains:
  assumes "i < length ss"
  shows "sublist (cron_line (ss ! i) i) (cron_message dn td ss)"
proof -
  have "sublist (cron_line (ss ! i) i) (cron_lines ss)"
    unfolding cron_lines_def using assms by (intro sublist_join map_indexed_nth)
  then obtain p q where "cron_lines ss = p @ cron_line (ss ! i) i @ q"
    by (auto simp: sublist_def)
  then have "cron_message dn td ss =
      (''Selamat pagi, '' @ dn @ ''!'' @ nl @ nl
       @ ''Informasi jadwal operasi *H-2* ('' @ td @ ''):'' @ nl @ nl @ p)
      @ cron_line (ss ! i) i
      @ (q @ nl @ nl @ ''Total: '' @ show_nat (length ss) @ '' operasi.'' @ nl @ nl
         @ ''_Pesan ini dikirim otomatis oleh SORA (Smart Operating Room Access)._'')"
    by (simp add: cron_message_def)
  then show ?thesis unfolding sublist_def by blast
qed

text \<open>
  C8, as amended. The orchestrator's message for a group has one numbered block per
  event, and the message contains the block of each event. After the number comes the
  patient name as the template literal prints it (the word \<open>null\<close> for a missing
  name, nothing for an empty one), then the record identifier, the two staff names, the
  time cut to hour and minute, the procedure type, the two contact numbers, the
  operating location and the diagnosis, each of these a dash when absent. When the
  patient name is present the block is the one the specification describes.
\<close>

theorem composed_block:
  assumes "i < length ss"
  shows "length (map_indexed cron_line ss) = length ss
       \<and> sublist (cron_line (ss ! i) i) (cron_message dn td ss)
       \<and> cron_line (ss ! i) i
           = show_nat (i + 1) @ ''. '' @ template (nama_pasien (ss ! i)) @ spec_fields (ss ! i)
       \<and> (\<not> absent (nama_pasien (ss ! i)) \<longrightarrow> cron_line (ss ! i) i = spec_block (i + 1) (ss ! i))"
proof -
  have "cron_line (ss ! i) i = spec_block (i + 1) (ss ! i)" if "\<not> absent (nama_pasien (ss ! i))"
    using that by (simp add: cron_line_spec spec_block_def template_present)
  then show ?thesis
    using cron_message_contains [OF assms] cron_line_spec length_map_indexed by blast
qed

lemma cron_line_ev:
  "cron_line ev 0 =
     ''1. Budi (RM1)'' @ nl @ ''   Dokter Operator: -'' @ nl @ ''   Dokter Anestesi: -'' @ nl
     @ ''   Jam     : 08:30'' @ nl @ ''   Jenis   : ELEKTIF'' @ nl @ ''   Telp 1  : -'' @ nl
     @ ''   Telp 2  : -'' @ nl @ ''   Ruang OK: OK 1'' @ nl @ ''   Diagnosis: -''"
  by (simp add: cron_line_def ev_def show_nat_1 template_def or_dash_def jam_def substring05_def)

theorem composed_block_witness:
  "(0::nat) < length [ev]
   \<and> sublist (cron_line ev 0) (cron_message ''Ward A'' ''2024-05-03'' [ev])
   \<and> cron_line ev 0 = spec_block 1 ev
   \<and> cron_line ev 0 =
       ''1. Budi (RM1)'' @ nl @ ''   Dokter Operator: -'' @ nl @ ''   Dokter Anestesi: -'' @ nl
       @ ''   Jam     : 08:30'' @ nl @ ''   Jenis   : ELEKTIF'' @ nl @ ''   Telp 1  : -'' @ nl
       @ ''   Telp 2  : -'' @ nl @ ''   Ruang OK: OK 1'' @ nl @ ''   Diagnosis: -''"
proof -
  have h: "(0::nat) < length [ev]" by simp
  have p: "\<not> absent (nama_pasien ev)" by (simp add: absent_def ev_def)
  note t = composed_block [OF h, of "''Ward A''" "''2024-05-03''", unfolded nth_Cons_0]
  from t have a: "sublist (cron_line ev 0) (cron_message ''Ward A'' ''2024-05-03'' [ev])"
    by blast
  from t p have "cron_line ev 0 = spec_block (0 + 1) ev" by blast
  then have b: "cron_line ev 0 = spec_block 1 ev" by simp
  show ?thesis using h a b cron_line_ev by blast
qed

text \<open>
  C8 as stated fails for an event without a patient name: the name is the one field
  with no fallback, and the block shows the word \<open>null\<close> where the claim has a dash.
\<close>

theorem patient_name_counterexample:
  "absent (nama_pasien ev_noname)
   \<and> cron_line ev_noname 0 =
       ''1. null (RM1)'' @ nl @ ''   Dokter Operator: -'' @ nl @ ''   Dokter Anestesi: -'' @ nl
       @ ''   Jam     : 08:30'' @ nl @ ''   Jenis   : ELEKTIF'' @ nl @ ''   Telp 1  : -'' @ nl
       @ ''   Telp 2  : -'' @ nl @ ''   Ruang OK: OK 1'' @ nl @ ''   Diagnosis: -''
   \<and> cron_line ev_noname 0 \<noteq> spec_block 1 ev_noname"
  by (simp add: cron_line_def spec_block_def spec_fields_def absent_def ev_noname_def ev_def
      template_def or_dash_def jam_def substring05_def spec_field_def show_nat_1)

text \<open>
  C7. The handler of \<open>POST /api/cron/whatsapp-resend\<close> renders an event without the
  line of the operating location that the orchestrator renders, so the two renderings
  of one event differ. Its comment says the format of the cron job is reused, and the
  handler of \<open>POST /api/whatsapp/resend\<close> does render the line.
\<close>

theorem resend_omits_operating_location:
  "cron_lines [ev] =
     ''1. Budi (RM1)'' @ nl @ ''   Dokter Operator: -'' @ nl @ ''   Dokter Anestesi: -'' @ nl
     @ ''   Jam     : 08:30'' @ nl @ ''   Jenis   : ELEKTIF'' @ nl @ ''   Telp 1  : -'' @ nl
     @ ''   Telp 2  : -'' @ nl @ ''   Ruang OK: OK 1'' @ nl @ ''   Diagnosis: -''
   \<and> cron_resend_lines [ev] =
     ''1. Budi (RM1)'' @ nl @ ''   Dokter Operator: -'' @ nl @ ''   Dokter Anestesi: -'' @ nl
     @ ''   Jam     : 08:30'' @ nl @ ''   Jenis   : ELEKTIF'' @ nl @ ''   Telp 1  : -'' @ nl
     @ ''   Telp 2  : -'' @ nl @ ''   Diagnosis: -''
   \<and> cron_resend_lines [ev] \<noteq> cron_lines [ev]"
  by (simp add: cron_lines_def cron_resend_lines_def map_indexed_def enumerate_eq_zip
      cron_line_def cron_resend_line_def ev_def show_nat_1 template_def or_dash_def jam_def
      substring05_def nl_def)

text \<open>The other resend handler renders events exactly as the orchestrator does.\<close>

lemma wa_resend_lines_eq: "wa_resend_lines ss = cron_lines ss"
proof -
  have "wa_resend_line = cron_line"
    by (intro ext) (simp add: wa_resend_line_def cron_line_def)
  then show ?thesis by (simp add: wa_resend_lines_def cron_lines_def)
qed


section \<open>The two renderings differ on every non-empty list of events\<close>

lemma join_length_less:
  "list_all2 (\<lambda>a b. length a < length b) xs ys \<Longrightarrow> xs \<noteq> [] \<Longrightarrow>
     length (join sep xs) < length (join sep ys)"
proof (induction xs ys rule: list_all2_induct)
  case Nil
  then show ?case by simp
next
  case (Cons x xs y ys)
  show ?case
  proof (cases xs)
    case Nil
    with Cons.hyps have "ys = []" by simp
    with Nil Cons.hyps show ?thesis by simp
  next
    case (Cons x' xs')
    with Cons.hyps obtain y' ys' where ys: "ys = y' # ys'"
      by (cases ys) auto
    from Cons.IH Cons have "length (join sep xs) < length (join sep ys)" by simp
    with Cons.hyps(1) show ?thesis unfolding Cons ys by simp
  qed
qed

lemma cron_resend_line_shorter: "length (cron_resend_line s i) < length (cron_line s i)"
  by (simp add: cron_resend_line_def cron_line_def)

text \<open>
  Whatever the events, the handler of \<open>POST /api/cron/whatsapp-resend\<close> renders a
  non-empty list of them differently from the orchestrator.
\<close>

lemma cron_resend_lines_differ: "ss \<noteq> [] \<Longrightarrow> cron_resend_lines ss \<noteq> cron_lines ss"
proof -
  assume ne: "ss \<noteq> []"
  have "list_all2 (\<lambda>a b. length a < length b)
          (map_indexed cron_resend_line ss) (map_indexed cron_line ss)"
    unfolding map_indexed_def
    by (simp add: list_all2_map1 list_all2_map2 list_all2_same case_prod_beta
        cron_resend_line_shorter)
  moreover have "map_indexed cron_resend_line ss \<noteq> []"
    using ne by (simp add: map_indexed_def enumerate_eq_zip)
  ultimately have "length (cron_resend_lines ss) < length (cron_lines ss)"
    unfolding cron_resend_lines_def cron_lines_def by (rule join_length_less)
  then show ?thesis by auto
qed


section \<open>Trigger gateway\<close>

text \<open>
  C9. The scheduled trigger endpoint runs the orchestrator exactly when the request
  carries the scheduler's marker header (\<open>x-vercel-cron\<close> equal to \<open>1\<close>) or an
  \<open>authorization\<close> header equal to \<open>Bearer\<close> followed by the configured, non-empty
  secret. Every other request gets the reply 401 Unauthorized, and nothing changes: no
  log row is written and nothing is sent.
\<close>

theorem gateway_authorization:
  "whatsapp_daily e headers w =
     (if headers ''x-vercel-cron'' = Some ''1''
         \<or> (\<exists>secret. CRON_SECRET e = Some secret \<and> secret \<noteq> []
                      \<and> headers ''authorization'' = Some (''Bearer '' @ secret))
      then (DailyOk (fst (runDailyWhatsAppJob e w)), snd (runDailyWhatsAppJob e w))
      else (DailyError 401 ''Unauthorized'', w))"
proof -
  have auth: "isAuthorized e headers \<longleftrightarrow>
        (\<exists>secret. CRON_SECRET e = Some secret \<and> secret \<noteq> []
                  \<and> headers ''authorization'' = Some (''Bearer '' @ secret))"
    by (auto simp: isAuthorized_def truthy_iff template_def)
  show ?thesis
    unfolding whatsapp_daily_def auth isVercelCron_def
    by (simp add: case_prod_beta)
qed


section \<open>Grouping\<close>

lemma group_step_plain:
  "\<not> inherited (room_key s) \<Longrightarrow>
     group_step s acc =
       Inr (AList.map_entry (room_key s) (\<lambda>l. l @ [s])
              (if map_of acc (room_key s) = None then AList.update (room_key s) [] acc else acc))"
  by (simp add: group_step_def Let_def)

lemma group_step_throws:
  "inherited (room_key s) \<Longrightarrow> map_of acc (room_key s) = None \<Longrightarrow>
     group_step s acc = Inl push_TypeError"
  by (simp add: group_step_def Let_def)

lemma map_of_grouped:
  "map_of (AList.map_entry k (\<lambda>l. l @ [s]) (if map_of acc k = None then AList.update k [] acc else acc))
     = (map_of acc)(k \<mapsto> (case map_of acc k of None \<Rightarrow> [] | Some l \<Rightarrow> l) @ [s])"
  by (auto simp: AList.map_of_map_entry AList.update_conv' fun_eq_iff split: option.splits)

lemma keys_map_entry: "map fst (AList.map_entry k f xs) = map fst xs"
  by (induction xs) auto

lemma keys_grouped:
  "map fst (AList.map_entry k (\<lambda>l. l @ [s]) (if map_of acc k = None then AList.update k [] acc else acc))
     = (if k \<in> set (map fst acc) then map fst acc else map fst acc @ [k])"
proof (cases "map_of acc k = None")
  case True
  then have "k \<notin> set (map fst acc)" by (simp add: map_of_eq_None_iff)
  with True show ?thesis by (simp add: keys_map_entry AList.update_keys)
next
  case False
  then have "k \<in> set (map fst acc)" by (simp add: map_of_eq_None_iff)
  with False show ?thesis by (auto simp: keys_map_entry)
qed

lemma get_group_step:
  "group_step s acc = Inr acc' \<Longrightarrow>
     get_group acc' k = get_group acc k @ (if room_key s = k then [s] else [])"
proof -
  assume "group_step s acc = Inr acc'"
  then have "acc' = AList.map_entry (room_key s) (\<lambda>l. l @ [s])
              (if map_of acc (room_key s) = None then AList.update (room_key s) [] acc else acc)"
    by (auto simp: group_step_def Let_def split: if_splits)
  then have "map_of acc' = (map_of acc)(room_key s \<mapsto>
               (case map_of acc (room_key s) of None \<Rightarrow> [] | Some l \<Rightarrow> l) @ [s])"
    by (simp only: map_of_grouped)
  then show ?thesis
    by (simp add: get_group_def split: option.splits)
qed

lemma keys_group_step:
  "group_step s acc = Inr acc' \<Longrightarrow>
     map fst acc' =
       (if room_key s \<in> set (map fst acc) then map fst acc else map fst acc @ [room_key s])"
proof -
  assume "group_step s acc = Inr acc'"
  then have "acc' = AList.map_entry (room_key s) (\<lambda>l. l @ [s])
              (if map_of acc (room_key s) = None then AList.update (room_key s) [] acc else acc)"
    by (auto simp: group_step_def Let_def split: if_splits)
  then show ?thesis by (simp only: keys_grouped)
qed

text \<open>With no inherited name among the rooms the grouping returns, with one group per room.\<close>

lemma reduce_groups_plain:
  "\<forall>s \<in> set ss. \<not> inherited (room_key s) \<Longrightarrow> distinct (map fst acc) \<Longrightarrow>
     \<exists>g. reduce_groups ss acc = Inr g
        \<and> distinct (map fst g)
        \<and> set (map fst g) = set (map fst acc) \<union> room_key ` set ss
        \<and> (\<forall>k. get_group g k = get_group acc k @ filter (\<lambda>s. room_key s = k) ss)"
proof (induction ss arbitrary: acc)
  case Nil
  then show ?case by simp
next
  case (Cons s ss)
  from Cons.prems(1) have p: "\<not> inherited (room_key s)" by simp
  then obtain acc' where a: "group_step s acc = Inr acc'"
    by (simp add: group_step_plain)
  have d: "distinct (map fst acc')"
    using Cons.prems(2) by (simp add: keys_group_step [OF a])
  have k: "set (map fst acc') = insert (room_key s) (set (map fst acc))"
    by (auto simp: keys_group_step [OF a])
  from Cons.prems(1) have rest: "\<forall>s \<in> set ss. \<not> inherited (room_key s)" by simp
  from Cons.IH [OF rest d] obtain g where g: "reduce_groups ss acc' = Inr g"
    "distinct (map fst g)" "set (map fst g) = set (map fst acc') \<union> room_key ` set ss"
    "\<forall>k. get_group g k = get_group acc' k @ filter (\<lambda>s. room_key s = k) ss"
    by blast
  have "reduce_groups (s # ss) acc = Inr g" by (simp add: a g(1))
  moreover have "set (map fst g) = set (map fst acc) \<union> room_key ` set (s # ss)"
    unfolding g(3) k by auto
  moreover have "\<forall>k. get_group g k = get_group acc k @ filter (\<lambda>s. room_key s = k) (s # ss)"
    using g(4) by (simp add: get_group_step [OF a])
  ultimately show ?case using g(2) by blast
qed

lemma grouped_plain:
  assumes "\<forall>s \<in> set ss. \<not> inherited (room_key s)"
  obtains g where "groupedByRoom ss = Inr g" and "distinct (map fst g)"
    and "set (map fst g) = room_key ` set ss"
    and "\<forall>k. get_group g k = filter (\<lambda>s. room_key s = k) ss"
proof -
  have e: "get_group [] k = []" for k by (simp add: get_group_def)
  from reduce_groups_plain [OF assms, of "[]"] obtain g where
    "reduce_groups ss [] = Inr g" "distinct (map fst g)"
    "set (map fst g) = room_key ` set ss"
    "\<forall>k. get_group g k = filter (\<lambda>s. room_key s = k) ss"
    by (auto simp: e)
  then show ?thesis using that by (simp add: groupedByRoom_def)
qed

text \<open>With an inherited name among the rooms the grouping throws.\<close>

lemma reduce_groups_throws:
  "\<exists>s \<in> set ss. inherited (room_key s) \<Longrightarrow> \<forall>k \<in> set (map fst acc). \<not> inherited k \<Longrightarrow>
     reduce_groups ss acc = Inl push_TypeError"
proof (induction ss arbitrary: acc)
  case Nil
  then show ?case by simp
next
  case (Cons s ss)
  show ?case
  proof (cases "inherited (room_key s)")
    case True
    with Cons.prems(2) have "room_key s \<notin> set (map fst acc)" by blast
    then have "map_of acc (room_key s) = None" by (simp add: map_of_eq_None_iff)
    with True show ?thesis by (simp add: group_step_throws)
  next
    case False
    then obtain acc' where a: "group_step s acc = Inr acc'" by (simp add: group_step_plain)
    have "set (map fst acc') = insert (room_key s) (set (map fst acc))"
      by (auto simp: keys_group_step [OF a])
    with False Cons.prems(2) have k: "\<forall>k \<in> set (map fst acc'). \<not> inherited k" by auto
    from False Cons.prems(1) have "\<exists>s \<in> set ss. inherited (room_key s)" by auto
    from Cons.IH [OF this k] show ?thesis by (simp add: a)
  qed
qed

lemma grouped_throws:
  "\<exists>s \<in> set ss. inherited (room_key s) \<Longrightarrow> groupedByRoom ss = Inl push_TypeError"
  unfolding groupedByRoom_def by (rule reduce_groups_throws) simp_all

lemma set_object_keys: "set (object_keys obj) = set (map fst obj)"
  by (auto simp: object_keys_def Let_def)

lemma distinct_object_keys: "distinct (map fst obj) \<Longrightarrow> distinct (object_keys obj)"
  by (auto simp: object_keys_def Let_def)

lemma length_object_keys: "length (object_keys obj) = length obj"
proof -
  have "length (filter P xs) + length (filter (\<lambda>x. \<not> P x) xs) = length xs" for P and xs :: "string list"
    by (induction xs) auto
  from this [of is_array_index "map fst obj"] show ?thesis
    unfolding object_keys_def Let_def by simp
qed


section \<open>The log table\<close>

lemma fold_max_ge: "(a::nat) \<le> fold max xs a"
  by (induction xs arbitrary: a) (auto intro: order_trans [OF max.cobounded2])

lemma fold_max_mem: "(x::nat) \<in> set xs \<Longrightarrow> x \<le> fold max xs a"
proof (induction xs arbitrary: a)
  case Nil
  then show ?case by simp
next
  case (Cons y ys)
  show ?case
  proof (cases "x = y")
    case True
    have "max y a \<le> fold max ys (max y a)" by (rule fold_max_ge)
    with True show ?thesis by simp
  next
    case False
    with Cons show ?thesis by simp
  qed
qed

lemma next_id_fresh: "r \<in> set rows \<Longrightarrow> log_id r < next_id rows"
  unfolding next_id_def using fold_max_mem [of "log_id r" "map log_id rows" 0] by simp

lemma next_id_pos: "next_id rows \<noteq> 0"
  by (simp add: next_id_def)

lemma map_fresh_id: "map (\<lambda>r. if log_id r = next_id rows then f r else r) rows = rows"
proof -
  have "(if log_id r = next_id rows then f r else r) = r" if "r \<in> set rows" for r
    using next_id_fresh [OF that] by simp
  then show ?thesis by (simp add: map_idI)
qed

section \<open>The loop over the rooms\<close>

lemma sendWhatsAppMessage_result:
  "fst (sendWhatsAppMessage e t m w) = fst (sendWhatsAppMessage e t m w0)"
  by (simp add: sendWhatsAppMessage_def Let_def split: fetch_outcome.splits)

lemma sendWhatsAppMessage_logs:
  "cron_job_logs (snd (sendWhatsAppMessage e t m w)) = cron_job_logs w"
  by (simp add: sendWhatsAppMessage_def Let_def split: fetch_outcome.splits)

lemma sendWhatsAppMessage_outbox:
  "outbox (snd (sendWhatsAppMessage e t m w)) =
     outbox w @ (if truthy (FONNTE_TOKEN e) then [(t, m)] else [])"
  by (simp add: sendWhatsAppMessage_def Let_def split: fetch_outcome.splits)

lemma sendWhatsAppMessage_success:
  "success (fst (sendWhatsAppMessage e t m w)) =
     (truthy (FONNTE_TOKEN e)
      \<and> (case fetch_send e t m of Replied r \<Rightarrow> status_is_true r | Threw x \<Rightarrow> False))"
  by (simp add: sendWhatsAppMessage_def Let_def split: fetch_outcome.splits)

lemma process_room_result:
  "fst (process_room e td g k w) = fst (process_room e td g k w0)"
  using sendWhatsAppMessage_result [of e _ _ w w0]
  by (simp add: process_room_def Let_def case_prod_beta split: sum.splits option.splits)

lemma process_room_logs:
  "cron_job_logs (snd (process_room e td g k w)) = cron_job_logs w"
  by (simp add: process_room_def Let_def case_prod_beta sendWhatsAppMessage_logs
      split: sum.splits option.splits)

lemma process_room_room: "room (fst (process_room e td g k w)) = k"
  by (simp add: process_room_def Let_def case_prod_beta split: sum.splits option.splits)

lemma process_rooms_results:
  "fst (process_rooms e td g ks acc w) = acc @ map (\<lambda>k. fst (process_room e td g k w0)) ks"
proof (induction ks arbitrary: acc w)
  case Nil
  then show ?case by simp
next
  case (Cons k ks)
  show ?case
    using Cons.IH process_room_result [of e td g k w w0]
    by (simp add: case_prod_beta)
qed

lemma process_rooms_logs:
  "cron_job_logs (snd (process_rooms e td g ks acc w)) = cron_job_logs w"
  by (induction ks arbitrary: acc w) (simp_all add: case_prod_beta process_room_logs)

lemma process_rooms_eq:
  "process_rooms e td g ks [] w =
     (map (\<lambda>k. fst (process_room e td g k w0)) ks, snd (process_rooms e td g ks [] w))"
  using process_rooms_results [of e td g ks "[]" w w0] by (simp add: prod_eq_iff)


section \<open>The orchestrator's run\<close>

lemma insert_running_eq:
  "insert_running e w =
     (if log_insert_fails e then (None, w)
      else (Some (next_id (cron_job_logs w)),
            w\<lparr>cron_job_logs := cron_job_logs w @
                [\<lparr>log_id = next_id (cron_job_logs w), job_name = job, log_status = ''running'',
                  summary = None, details = Null, started_at = Some (nowWIB e),
                  finished_at = None, timestamp = nowWIB e\<rparr>]\<rparr>))"
  by (simp add: insert_running_def Let_def next_id_pos)

lemma updateLog_None: "updateLog e None st summ dets w = w"
  by (simp add: updateLog_def)

lemma updateLog_outbox: "outbox (updateLog e i st summ dets w) = outbox w"
  by (simp add: updateLog_def split: option.splits)

lemma updateLog_fresh:
  assumes "cron_job_logs w2 = rows @ [r0]" and "log_id r0 = next_id rows"
  shows "cron_job_logs (updateLog e (Some (next_id rows)) st summ dets w2) =
           rows @ [r0\<lparr>log_status := st, summary := Some summ,
                       details := (case dets of None \<Rightarrow> Null | Some d \<Rightarrow> Parsed d),
                       finished_at := Some (nowWIB_later e)\<rparr>]"
  using assms by (simp add: updateLog_def map_fresh_id)

lemma run_zero:
  assumes "select_surgeries e (d2Date e) None = Inr data" and "data = None \<or> data = Some []"
  shows "runDailyWhatsAppJob e w =
           (\<lparr>r_status = ''success'',
             r_summary = ''No surgeries found for '' @ d2Date e @ ''. No messages sent.'',
             r_targetDate = Some (d2Date e), r_rooms = Some [], r_total_surgeries = Some 0\<rparr>,
            updateLog e (fst (insert_running e w)) ''success''
              (''No surgeries found for '' @ d2Date e @ ''. No messages sent.'') None
              (snd (insert_running e w)))"
  using assms by (auto simp: runDailyWhatsAppJob_def Let_def case_prod_beta)

lemma run_nonempty:
  assumes "select_surgeries e (d2Date e) None = Inr (Some ss)" and "ss \<noteq> []"
    and "groupedByRoom ss = Inr g"
  shows "runDailyWhatsAppJob e w =
           (let uniqueRooms = object_keys g;
                lp = process_rooms e (d2Date e) g uniqueRooms [] (snd (insert_running e w));
                summ = ''Job completed for '' @ d2Date e @ ''. Rooms processed: ''
                       @ show_nat (length uniqueRooms) @ ''. Total surgeries: ''
                       @ show_nat (length ss) @ ''.''
            in (\<lparr>r_status = ''success'', r_summary = summ, r_targetDate = Some (d2Date e),
                  r_rooms = Some (fst lp), r_total_surgeries = Some (length ss)\<rparr>,
                updateLog e (fst (insert_running e w)) ''success'' summ
                  (Some \<lparr>d_targetDate = Some (d2Date e), d_rooms = Some (fst lp)\<rparr>) (snd lp)))"
  using assms by (simp add: runDailyWhatsAppJob_def Let_def case_prod_beta)

lemma run_thrown:
  assumes "select_surgeries e (d2Date e) None = Inr (Some ss)" and "ss \<noteq> []"
    and "groupedByRoom ss = Inl err"
  shows "runDailyWhatsAppJob e w =
           (\<lparr>r_status = ''error'', r_summary = ''Job failed: '' @ err, r_targetDate = None,
              r_rooms = None, r_total_surgeries = None\<rparr>,
            updateLog e (fst (insert_running e w)) ''error'' (''Job failed: '' @ err) None
              (snd (insert_running e w)))"
  using assms by (simp add: runDailyWhatsAppJob_def Let_def case_prod_beta)

lemma run_zero_logs:
  assumes "select_surgeries e (d2Date e) None = Inr data" and "data = None \<or> data = Some []"
  shows "cron_job_logs (snd (runDailyWhatsAppJob e w)) =
           (if log_insert_fails e then cron_job_logs w
            else cron_job_logs w @
                   [finished_row e w (''No surgeries found for '' @ d2Date e @ ''. No messages sent.'')
                      Null])"
proof (cases "log_insert_fails e")
  case True
  then show ?thesis
    by (simp add: run_zero [OF assms] insert_running_eq updateLog_None)
next
  case False
  then show ?thesis
    by (simp add: run_zero [OF assms] insert_running_eq updateLog_fresh finished_row_def)
qed

lemma run_nonempty_logs:
  assumes "select_surgeries e (d2Date e) None = Inr (Some ss)" and "ss \<noteq> []"
    and "groupedByRoom ss = Inr g"
  shows "cron_job_logs (snd (runDailyWhatsAppJob e w)) =
           (if log_insert_fails e then cron_job_logs w
            else cron_job_logs w @
                   [finished_row e w (r_summary (fst (runDailyWhatsAppJob e w)))
                      (Parsed \<lparr>d_targetDate = Some (d2Date e),
                               d_rooms = r_rooms (fst (runDailyWhatsAppJob e w))\<rparr>)])"
proof (cases "log_insert_fails e")
  case True
  then show ?thesis
    by (simp add: run_nonempty [OF assms] Let_def insert_running_eq updateLog_None
        process_rooms_logs)
next
  case False
  let ?w1 = "snd (insert_running e w)"
  let ?lp = "process_rooms e (d2Date e) g (object_keys g) [] ?w1"
  have l: "cron_job_logs (snd ?lp) = cron_job_logs w @
             [\<lparr>log_id = next_id (cron_job_logs w), job_name = job, log_status = ''running'',
               summary = None, details = Null, started_at = Some (nowWIB e),
               finished_at = None, timestamp = nowWIB e\<rparr>]"
    using False by (simp add: process_rooms_logs insert_running_eq)
  have i: "fst (insert_running e w) = Some (next_id (cron_job_logs w))"
    using False by (simp add: insert_running_eq)
  show ?thesis
    using False
    by (simp add: run_nonempty [OF assms] Let_def i updateLog_fresh [OF l] finished_row_def)
qed

lemma run_nonempty_rooms:
  assumes "select_surgeries e (d2Date e) None = Inr (Some ss)" and "ss \<noteq> []"
    and "groupedByRoom ss = Inr g"
  shows "r_rooms (fst (runDailyWhatsAppJob e w)) =
           Some (map (\<lambda>k. fst (process_room e (d2Date e) g k w0)) (object_keys g))"
  by (simp add: run_nonempty [OF assms] Let_def process_rooms_results [where ?w0.0 = w0])

text \<open>The log table and the outbox after a run whose grouping threw.\<close>

lemma run_thrown_world:
  assumes "select_surgeries e (d2Date e) None = Inr (Some ss)" and "ss \<noteq> []"
    and "groupedByRoom ss = Inl err"
  shows "cron_job_logs (snd (runDailyWhatsAppJob e w)) =
           (if log_insert_fails e then cron_job_logs w
            else cron_job_logs w @
                   [(finished_row e w (''Job failed: '' @ err) Null)\<lparr>log_status := ''error''\<rparr>])"
    and "outbox (snd (runDailyWhatsAppJob e w)) = outbox w"
proof -
  show "outbox (snd (runDailyWhatsAppJob e w)) = outbox w"
    by (simp add: run_thrown [OF assms] updateLog_outbox insert_running_eq)
  show "cron_job_logs (snd (runDailyWhatsAppJob e w)) =
           (if log_insert_fails e then cron_job_logs w
            else cron_job_logs w @
                   [(finished_row e w (''Job failed: '' @ err) Null)\<lparr>log_status := ''error''\<rparr>])"
  proof (cases "log_insert_fails e")
    case True
    then show ?thesis
      by (simp add: run_thrown [OF assms] insert_running_eq updateLog_None)
  next
    case False
    then show ?thesis
      by (simp add: run_thrown [OF assms] insert_running_eq updateLog_fresh finished_row_def)
  qed
qed


lemma process_room_status:
  "status (fst (process_room e td g k w)) =
     (case lookup_param e k of
        Inl pError \<Rightarrow> ''error''
      | Inr None \<Rightarrow> ''skipped''
      | Inr (Some p) \<Rightarrow>
          if \<not> truthy (param_value p) then ''skipped''
          else if delivered e (template (param_value p))
                    (cron_message (or_else (param_name p) k) td (get_group g k))
               then ''sent'' else ''send_failed'')"
  by (simp add: process_room_def Let_def case_prod_beta delivered_def sendWhatsAppMessage_success
      split: sum.splits option.splits)

lemma process_room_count:
  "surgery_count (fst (process_room e td g k w)) =
     (if resolves e k then Some (length (get_group g k)) else None)"
  by (simp add: process_room_def Let_def case_prod_beta resolves_def
      split: sum.splits option.splits)

lemma room_key_ev: "room_key ev = ''Ward A''" and room_key_ev_b: "room_key ev_b = ''Ward B''"
  by (simp_all add: room_key_def or_else_def ev_def ev_b_def)

lemma not_index_Ward: "\<not> is_array_index (CHR ''W'' # s)"
  by (simp add: is_array_index_def is_digit_def)

lemma not_inherited_Ward: "\<not> inherited (CHR ''W'' # s)"
  by (simp add: inherited_def inherited_functions_def)


lemma grouped_ev_b: "groupedByRoom [ev_b] = Inr [(''Ward B'', [ev_b])]"
  by (simp add: groupedByRoom_def group_step_def room_key_ev_b not_inherited_Ward)

lemma grouped_ev_ev_b: "groupedByRoom [ev, ev_b] = Inr [(''Ward A'', [ev]), (''Ward B'', [ev_b])]"
  by (simp add: groupedByRoom_def group_step_def room_key_ev room_key_ev_b not_inherited_Ward)

lemma grouped_ev_ev: "groupedByRoom [ev, ev] = Inr [(''Ward A'', [ev, ev])]"
  by (simp add: groupedByRoom_def group_step_def room_key_ev not_inherited_Ward)

lemma keys_ev_b: "object_keys [(''Ward B'', [ev_b])] = [''Ward B'']"
  by (simp add: object_keys_def not_index_Ward)

lemma keys_ev_ev_b: "object_keys [(''Ward A'', [ev]), (''Ward B'', [ev_b])] = [''Ward A'', ''Ward B'']"
  by (simp add: object_keys_def not_index_Ward)

lemma run_ev_b:
  "fst (runDailyWhatsAppJob (env_of [ev_b]) w_empty) =
     \<lparr>r_status = ''success'',
      r_summary = ''Job completed for 2024-05-03. Rooms processed: 1. Total surgeries: 1.'',
      r_targetDate = Some ''2024-05-03'',
      r_rooms = Some [\<lparr>room = ''Ward B'', phone = None, status = ''skipped'', surgery_count = None,
                        wa_response = None,
                        reason = Some (''No phone number found for room '' @ dq @ ''Ward B'' @ dq
                                       @ '' in mst_parameter, skipping.''),
                        resent_at = None\<rparr>],
      r_total_surgeries = Some 1\<rparr>"
proof -
  have q: "select_surgeries (env_of [ev_b]) (d2Date (env_of [ev_b])) None = Inr (Some [ev_b])"
    by (simp add: env_of_def)
  have ne: "[ev_b] \<noteq> []" by simp
  show ?thesis
    unfolding run_nonempty [OF q ne grouped_ev_b] Let_def keys_ev_b
    by (simp add: process_room_def env_of_def show_nat_1 case_prod_beta)
qed

lemma sum_list_delta:
  "distinct ks \<Longrightarrow> a \<in> set ks \<Longrightarrow> (\<Sum>k\<leftarrow>ks. if k = a then c else (0::nat)) = c"
proof (induction ks)
  case Nil
  then show ?case by simp
next
  case (Cons k ks)
  show ?case
  proof (cases "k = a")
    case True
    with Cons.prems have "a \<notin> set ks" by simp
    then have "(\<Sum>k\<leftarrow>ks. if k = a then c else 0) = 0"
      by (induction ks) auto
    with True show ?thesis by simp
  next
    case False
    with Cons show ?thesis by simp
  qed
qed

lemma partition_count:
  assumes "distinct ks" and "f ` set xs \<subseteq> set ks"
  shows "(\<Sum>k\<leftarrow>ks. if P k then length (filter (\<lambda>x. f x = k) xs) else 0)
         = length (filter (\<lambda>x. P (f x)) xs)"
  using assms(2)
proof (induction xs)
  case Nil
  have "(\<lambda>k. if P k then length (filter (\<lambda>x. f x = k) []) else 0) = (\<lambda>k. 0)"
    by (rule ext) simp
  then show ?case by simp
next
  case (Cons x xs)
  have mem: "f x \<in> set ks" using Cons.prems by simp
  have split: "(if P k then length (filter (\<lambda>y. f y = k) (x # xs)) else 0)
      = (if k = f x then (if P (f x) then 1 else 0) else 0)
        + (if P k then length (filter (\<lambda>y. f y = k) xs) else 0)" for k
    by auto
  have "(\<Sum>k\<leftarrow>ks. if P k then length (filter (\<lambda>y. f y = k) (x # xs)) else 0)
      = (\<Sum>k\<leftarrow>ks. if k = f x then (if P (f x) then 1 else 0) else 0)
        + (\<Sum>k\<leftarrow>ks. if P k then length (filter (\<lambda>y. f y = k) xs) else 0)"
    unfolding split by (simp add: sum_list_addf)
  also have "\<dots> = (if P (f x) then 1 else 0) + length (filter (\<lambda>y. P (f y)) xs)"
    using Cons sum_list_delta [OF assms(1) mem] by simp
  finally show ?case by simp
qed

lemma count_sum_results:
  assumes "\<And>k. get_group g k = filter (\<lambda>s. room_key s = k) ss"
  shows "count_sum (map (\<lambda>k. fst (process_room e td g k w0)) ks) =
     (\<Sum>k\<leftarrow>ks. if resolves e k then length (filter (\<lambda>s. room_key s = k) ss) else 0)"
proof -
  have "(case surgery_count (fst (process_room e td g k w0)) of
           None \<Rightarrow> 0 | Some n \<Rightarrow> n)
        = (if resolves e k then length (filter (\<lambda>s. room_key s = k) ss) else 0)" for k
    by (simp add: process_room_count assms)
  then show ?thesis by (simp add: count_sum_def comp_def)
qed

lemma count_sum_run:
  assumes "distinct (map fst g)" and "set (map fst g) = room_key ` set ss"
    and "\<And>k. get_group g k = filter (\<lambda>s. room_key s = k) ss"
  shows "count_sum (map (\<lambda>k. fst (process_room e td g k w0)) (object_keys g))
         = length (filter (\<lambda>s. resolves e (room_key s)) ss)"
proof -
  have d: "distinct (object_keys g)" by (rule distinct_object_keys [OF assms(1)])
  have s: "room_key ` set ss \<subseteq> set (object_keys g)"
    unfolding set_object_keys assms(2) by simp
  show ?thesis
    unfolding count_sum_results [of g ss, OF assms(3)]
    by (rule partition_count [OF d s])
qed


section \<open>Claims about the orchestrator\<close>

text \<open>
  C6. When the query for the target date returns no events (no data, or an empty list),
  the run returns the outcome \<open>success\<close> with the summary that no surgeries were found
  and no room results; the log row it inserted at its start (when that insert
  succeeded) ends with status \<open>success\<close>, this summary and no details, every other row
  of the log is as before, and nothing is sent.
\<close>

theorem zero_events_run:
  assumes "select_surgeries e (d2Date e) None = Inr data" and "data = None \<or> data = Some []"
  shows "fst (runDailyWhatsAppJob e w) =
           \<lparr>r_status = ''success'',
            r_summary = ''No surgeries found for '' @ d2Date e @ ''. No messages sent.'',
            r_targetDate = Some (d2Date e), r_rooms = Some [], r_total_surgeries = Some 0\<rparr>
       \<and> cron_job_logs (snd (runDailyWhatsAppJob e w)) =
           (if log_insert_fails e then cron_job_logs w
            else cron_job_logs w @
                   [finished_row e w (''No surgeries found for '' @ d2Date e @ ''. No messages sent.'')
                      Null])
       \<and> outbox (snd (runDailyWhatsAppJob e w)) = outbox w"
proof -
  have "outbox (snd (runDailyWhatsAppJob e w)) = outbox w"
    by (simp add: run_zero [OF assms] updateLog_outbox insert_running_eq)
  then show ?thesis
    using run_zero_logs [OF assms, of w] by (simp add: run_zero [OF assms])
qed

theorem zero_events_run_witness:
  "select_surgeries (env_of []) (d2Date (env_of [])) None = Inr (Some [])
   \<and> r_status (fst (runDailyWhatsAppJob (env_of []) w_empty)) = ''success''
   \<and> r_rooms (fst (runDailyWhatsAppJob (env_of []) w_empty)) = Some []
   \<and> cron_job_logs (snd (runDailyWhatsAppJob (env_of []) w_empty)) =
        [\<lparr>log_id = 1, job_name = ''daily_whatsapp_notification'', log_status = ''success'',
          summary = Some ''No surgeries found for 2024-05-03. No messages sent.'',
          details = Null, started_at = Some 100, finished_at = Some 101, timestamp = 100\<rparr>]
   \<and> outbox (snd (runDailyWhatsAppJob (env_of []) w_empty)) = []"
proof -
  have q: "select_surgeries (env_of []) (d2Date (env_of [])) None = Inr (Some [])"
    by (simp add: env_of_def)
  have d: "Some ([]::surgery list) = None \<or> Some ([]::surgery list) = Some []" by simp
  have v: "d2Date (env_of []) = ''2024-05-03''" "\<not> log_insert_fails (env_of [])"
    "nowWIB (env_of []) = 100" "nowWIB_later (env_of []) = 101"
    by (simp_all add: env_of_def)
  show ?thesis
    using zero_events_run [OF q d, of w_empty] q
    by (simp add: v finished_row_def w_empty_def next_id_def job_def)
qed

text \<open>
  Per-group isolation, for the runs in which no room is named like an inherited member
  of every object. In such a run over a non-empty list of events, every grouping key
  gets exactly one room result, whatever happens to the other groups, and the results
  are written to the run's log row. The status of a group's result is decided by that
  group alone: \<open>error\<close> when its lookup fails, \<open>skipped\<close> when there is no active
  rule or the address is empty, and otherwise \<open>sent\<close> or \<open>send_failed\<close> as its own
  send succeeds or fails. The run itself ends with \<open>success\<close>.
\<close>

lemma plain_rooms_isolated:
  assumes "select_surgeries e (d2Date e) None = Inr (Some ss)" and "ss \<noteq> []"
    and "\<forall>s \<in> set ss. \<not> inherited (room_key s)"
  shows "\<exists>results.
           r_status (fst (runDailyWhatsAppJob e w)) = ''success''
         \<and> r_rooms (fst (runDailyWhatsAppJob e w)) = Some results
         \<and> cron_job_logs (snd (runDailyWhatsAppJob e w)) =
             (if log_insert_fails e then cron_job_logs w
              else cron_job_logs w @
                     [finished_row e w (r_summary (fst (runDailyWhatsAppJob e w)))
                        (Parsed \<lparr>d_targetDate = Some (d2Date e), d_rooms = Some results\<rparr>)])
         \<and> distinct (map room results)
         \<and> set (map room results) = room_key ` set ss
         \<and> (\<forall>r \<in> set results.
               status r =
                 (case lookup_param e (room r) of
                    Inl pError \<Rightarrow> ''error''
                  | Inr None \<Rightarrow> ''skipped''
                  | Inr (Some p) \<Rightarrow>
                      if \<not> truthy (param_value p) then ''skipped''
                      else if delivered e (template (param_value p))
                                (cron_message (or_else (param_name p) (room r)) (d2Date e)
                                   (filter (\<lambda>s. room_key s = room r) ss))
                           then ''sent'' else ''send_failed''))"
proof -
  from assms(3) obtain g where g: "groupedByRoom ss = Inr g" "distinct (map fst g)"
    "set (map fst g) = room_key ` set ss"
    and ga: "\<forall>k. get_group g k = filter (\<lambda>s. room_key s = k) ss"
    by (rule grouped_plain)
  from ga have g4: "get_group g k = filter (\<lambda>s. room_key s = k) ss" for k by simp
  let ?f = "\<lambda>k. fst (process_room e (d2Date e) g k w)"
  let ?results = "map ?f (object_keys g)"
  have rooms: "r_rooms (fst (runDailyWhatsAppJob e w)) = Some ?results"
    by (rule run_nonempty_rooms [OF assms(1,2) g(1)])
  have names: "map room ?results = object_keys g"
    by (simp add: comp_def process_room_room)
  have st: "r_status (fst (runDailyWhatsAppJob e w)) = ''success''"
    by (simp add: run_nonempty [OF assms(1,2) g(1)] Let_def)
  have d: "distinct (map room ?results)"
    unfolding names by (rule distinct_object_keys [OF g(2)])
  have s: "set (map room ?results) = room_key ` set ss"
    unfolding names set_object_keys g(3) ..
  have each: "\<forall>r \<in> set ?results. status r =
                 (case lookup_param e (room r) of
                    Inl pError \<Rightarrow> ''error''
                  | Inr None \<Rightarrow> ''skipped''
                  | Inr (Some p) \<Rightarrow>
                      if \<not> truthy (param_value p) then ''skipped''
                      else if delivered e (template (param_value p))
                                (cron_message (or_else (param_name p) (room r)) (d2Date e)
                                   (filter (\<lambda>s. room_key s = room r) ss))
                           then ''sent'' else ''send_failed'')"
  proof
    fix r assume "r \<in> set ?results"
    then obtain k where r: "r = ?f k" by auto
    show "status r =
                 (case lookup_param e (room r) of
                    Inl pError \<Rightarrow> ''error''
                  | Inr None \<Rightarrow> ''skipped''
                  | Inr (Some p) \<Rightarrow>
                      if \<not> truthy (param_value p) then ''skipped''
                      else if delivered e (template (param_value p))
                                (cron_message (or_else (param_name p) (room r)) (d2Date e)
                                   (filter (\<lambda>s. room_key s = room r) ss))
                           then ''sent'' else ''send_failed'')"
      unfolding r process_room_room process_room_status g4 ..
  qed
  have logs: "cron_job_logs (snd (runDailyWhatsAppJob e w)) =
             (if log_insert_fails e then cron_job_logs w
              else cron_job_logs w @
                     [finished_row e w (r_summary (fst (runDailyWhatsAppJob e w)))
                        (Parsed \<lparr>d_targetDate = Some (d2Date e), d_rooms = Some ?results\<rparr>)])"
    using run_nonempty_logs [OF assms(1,2) g(1), of w] unfolding rooms .
  show ?thesis
    by (rule exI [of _ ?results]) (intro conjI st rooms logs d s each)
qed

text \<open>
  A run with a room named like an inherited member ends in the \<open>catch\<close>: the grouping
  throws before any group is looked up, so no group gets a room result and nothing is
  sent; the log row of the run, if it was inserted, is marked \<open>error\<close>.
\<close>

lemma inherited_room_aborts:
  assumes "select_surgeries e (d2Date e) None = Inr (Some ss)"
    and "\<exists>s \<in> set ss. inherited (room_key s)"
  shows "fst (runDailyWhatsAppJob e w) =
           \<lparr>r_status = ''error'', r_summary = ''Job failed: '' @ push_TypeError,
            r_targetDate = None, r_rooms = None, r_total_surgeries = None\<rparr>"
    and "cron_job_logs (snd (runDailyWhatsAppJob e w)) =
           (if log_insert_fails e then cron_job_logs w
            else cron_job_logs w @
                   [(finished_row e w (''Job failed: '' @ push_TypeError) Null)
                      \<lparr>log_status := ''error''\<rparr>])"
    and "outbox (snd (runDailyWhatsAppJob e w)) = outbox w"
proof -
  from assms(2) have ne: "ss \<noteq> []" by auto
  have g: "groupedByRoom ss = Inl push_TypeError"
    by (rule grouped_throws [OF assms(2)])
  show "fst (runDailyWhatsAppJob e w) =
           \<lparr>r_status = ''error'', r_summary = ''Job failed: '' @ push_TypeError,
            r_targetDate = None, r_rooms = None, r_total_surgeries = None\<rparr>"
    by (simp add: run_thrown [OF assms(1) ne g])
  show "cron_job_logs (snd (runDailyWhatsAppJob e w)) =
           (if log_insert_fails e then cron_job_logs w
            else cron_job_logs w @
                   [(finished_row e w (''Job failed: '' @ push_TypeError) Null)
                      \<lparr>log_status := ''error''\<rparr>])"
    by (rule run_thrown_world(1) [OF assms(1) ne g])
  show "outbox (snd (runDailyWhatsAppJob e w)) = outbox w"
    by (rule run_thrown_world(2) [OF assms(1) ne g])
qed


text \<open>An instance: Ward A is sent, Ward B, which has no rule, is skipped.\<close>

lemma plain_rooms_isolated_example:
  "select_surgeries (env_of [ev, ev_b]) (d2Date (env_of [ev, ev_b])) None = Inr (Some [ev, ev_b])
   \<and> [ev, ev_b] \<noteq> []
   \<and> (\<exists>results.
          r_rooms (fst (runDailyWhatsAppJob (env_of [ev, ev_b]) w_empty)) = Some results
        \<and> map room results = [''Ward A'', ''Ward B'']
        \<and> map status results = [''sent'', ''skipped''])"
proof -
  let ?e = "env_of [ev, ev_b]"
  have q: "select_surgeries ?e (d2Date ?e) None = Inr (Some [ev, ev_b])"
    by (simp add: env_of_def)
  have ne: "[ev, ev_b] \<noteq> []" by simp
  have pl: "\<forall>s \<in> set [ev, ev_b]. \<not> inherited (room_key s)"
    by (simp add: room_key_ev room_key_ev_b not_inherited_Ward)
  from plain_rooms_isolated [OF q ne pl, of w_empty] obtain results where
    R: "r_rooms (fst (runDailyWhatsAppJob ?e w_empty)) = Some results" and
    S: "\<forall>r \<in> set results.
          status r =
            (case lookup_param ?e (room r) of
               Inl pError \<Rightarrow> ''error''
             | Inr None \<Rightarrow> ''skipped''
             | Inr (Some p) \<Rightarrow>
                 if \<not> truthy (param_value p) then ''skipped''
                 else if delivered ?e (template (param_value p))
                           (cron_message (or_else (param_name p) (room r)) (d2Date ?e)
                              (filter (\<lambda>s. room_key s = room r) [ev, ev_b]))
                      then ''sent'' else ''send_failed'')"
    by blast
  from R have res: "results = map (\<lambda>k. fst (process_room ?e (d2Date ?e)
                                              [(''Ward A'', [ev]), (''Ward B'', [ev_b])] k w_empty))
                               [''Ward A'', ''Ward B'']"
    unfolding run_nonempty_rooms [OF q ne grouped_ev_ev_b, of w_empty w_empty] keys_ev_ev_b by simp
  then have names: "map room results = [''Ward A'', ''Ward B'']"
    by (simp add: process_room_room)
  then obtain a b where ab: "results = [a, b]" "room a = ''Ward A''" "room b = ''Ward B''"
    by (auto simp: map_eq_Cons_conv)
  have "status a = ''sent''"
    using S ab by (simp add: env_of_def truthy_def delivered_def)
  moreover have "status b = ''skipped''"
    using S ab by (simp add: env_of_def)
  ultimately have "map status results = [''sent'', ''skipped'']"
    using ab by simp
  then show ?thesis
    by (intro conjI exI [of _ results]) (use q R names in simp_all)
qed


text \<open>
  C3, as amended. A run over \<open>N > 0\<close> events in \<open>K\<close> distinct grouping keys (the
  sentinel of the events without a key being one of them), none of them the name of an
  inherited member of every object, writes exactly \<open>K\<close> room results to the log, one
  per key. A result carries a \<open>surgery_count\<close>, the number of events of its group,
  exactly when the group's destination resolved; the results of the other groups have
  none. So the counts sum to the number of events in the groups that resolved, which is
  \<open>N\<close> when every group resolves.
\<close>

theorem room_results_per_key:
  assumes "select_surgeries e (d2Date e) None = Inr (Some ss)" and "ss \<noteq> []"
    and "\<forall>s \<in> set ss. \<not> inherited (room_key s)"
  shows "\<exists>results.
           r_rooms (fst (runDailyWhatsAppJob e w)) = Some results
         \<and> cron_job_logs (snd (runDailyWhatsAppJob e w)) =
             (if log_insert_fails e then cron_job_logs w
              else cron_job_logs w @
                     [finished_row e w (r_summary (fst (runDailyWhatsAppJob e w)))
                        (Parsed \<lparr>d_targetDate = Some (d2Date e), d_rooms = Some results\<rparr>)])
         \<and> length results = card (room_key ` set ss)
         \<and> distinct (map room results)
         \<and> set (map room results) = room_key ` set ss
         \<and> (\<forall>r \<in> set results.
               surgery_count r =
                 (if resolves e (room r)
                  then Some (length (filter (\<lambda>s. room_key s = room r) ss)) else None))
         \<and> count_sum results = length (filter (\<lambda>s. resolves e (room_key s)) ss)
         \<and> ((\<forall>s \<in> set ss. resolves e (room_key s)) \<longrightarrow> count_sum results = length ss)"
proof -
  from assms(3) obtain g where g: "groupedByRoom ss = Inr g" "distinct (map fst g)"
    "set (map fst g) = room_key ` set ss"
    and ga: "\<forall>k. get_group g k = filter (\<lambda>s. room_key s = k) ss"
    by (rule grouped_plain)
  from ga have g4: "get_group g k = filter (\<lambda>s. room_key s = k) ss" for k by simp
  let ?f = "\<lambda>k. fst (process_room e (d2Date e) g k w)"
  let ?results = "map ?f (object_keys g)"
  have rooms: "r_rooms (fst (runDailyWhatsAppJob e w)) = Some ?results"
    by (rule run_nonempty_rooms [OF assms(1,2) g(1)])
  have names: "map room ?results = object_keys g"
    by (simp add: comp_def process_room_room)
  have d: "distinct (map room ?results)"
    unfolding names by (rule distinct_object_keys [OF g(2)])
  have s: "set (map room ?results) = room_key ` set ss"
    unfolding names set_object_keys g(3) ..
  have "length ?results = card (set (object_keys g))"
    using distinct_card [OF distinct_object_keys [OF g(2)]] by simp
  then have len: "length ?results = card (room_key ` set ss)"
    unfolding set_object_keys g(3) .
  have each: "\<forall>r \<in> set ?results. surgery_count r =
                (if resolves e (room r)
                 then Some (length (filter (\<lambda>s. room_key s = room r) ss)) else None)"
  proof
    fix r assume "r \<in> set ?results"
    then obtain k where r: "r = ?f k" by auto
    show "surgery_count r =
                (if resolves e (room r)
                 then Some (length (filter (\<lambda>s. room_key s = room r) ss)) else None)"
      unfolding r process_room_room process_room_count g4 ..
  qed
  have total: "count_sum ?results = length (filter (\<lambda>s. resolves e (room_key s)) ss)"
    by (rule count_sum_run [OF g(2,3) g4])
  have all: "(\<forall>s \<in> set ss. resolves e (room_key s)) \<longrightarrow> count_sum ?results = length ss"
    unfolding total by simp
  have logs: "cron_job_logs (snd (runDailyWhatsAppJob e w)) =
             (if log_insert_fails e then cron_job_logs w
              else cron_job_logs w @
                     [finished_row e w (r_summary (fst (runDailyWhatsAppJob e w)))
                        (Parsed \<lparr>d_targetDate = Some (d2Date e), d_rooms = Some ?results\<rparr>)])"
    using run_nonempty_logs [OF assms(1,2) g(1), of w] unfolding rooms .
  show ?thesis
    by (rule exI [of _ ?results]) (intro conjI rooms logs len d s each total all)
qed

lemma resolves_Ward_A: "resolves (env_of evs) ''Ward A''"
  by (simp add: resolves_def env_of_def truthy_def)

lemma not_resolves_Ward_B: "\<not> resolves (env_of evs) ''Ward B''"
  by (simp add: resolves_def env_of_def)

theorem room_results_per_key_witness:
  "select_surgeries (env_of [ev, ev]) (d2Date (env_of [ev, ev])) None = Inr (Some [ev, ev])
   \<and> [ev, ev] \<noteq> []
   \<and> map room_key [ev, ev] = [''Ward A'', ''Ward A''] \<and> \<not> inherited ''Ward A''
   \<and> resolves (env_of [ev, ev]) ''Ward A''
   \<and> (\<exists>results.
          r_rooms (fst (runDailyWhatsAppJob (env_of [ev, ev]) w_empty)) = Some results
        \<and> length results = 1
        \<and> set (map room results) = {''Ward A''}
        \<and> count_sum results = 2)
   \<and> select_surgeries (env_of [ev, ev_b, ev]) (d2Date (env_of [ev, ev_b, ev])) None
       = Inr (Some [ev, ev_b, ev])
   \<and> map room_key [ev, ev_b, ev] = [''Ward A'', ''Ward B'', ''Ward A'']
   \<and> \<not> inherited ''Ward B'' \<and> \<not> resolves (env_of [ev, ev_b, ev]) ''Ward B''
   \<and> (\<exists>results.
          r_rooms (fst (runDailyWhatsAppJob (env_of [ev, ev_b, ev]) w_empty)) = Some results
        \<and> length results = 2
        \<and> distinct (map room results)
        \<and> set (map room results) = {''Ward A'', ''Ward B''}
        \<and> (\<forall>r \<in> set results. surgery_count r = (if room r = ''Ward A'' then Some 2 else None))
        \<and> count_sum results = 2)"
proof -
  let ?e = "env_of [ev, ev]"
  have q: "select_surgeries ?e (d2Date ?e) None = Inr (Some [ev, ev])"
    by (simp add: env_of_def)
  have ne: "[ev, ev] \<noteq> []" by simp
  have all: "\<forall>s \<in> set [ev, ev]. resolves ?e (room_key s)"
    by (simp add: room_key_ev resolves_Ward_A)
  have pl: "\<forall>s \<in> set [ev, ev]. \<not> inherited (room_key s)"
    by (simp add: room_key_ev not_inherited_Ward)
  from room_results_per_key [OF q ne pl, of w_empty] all obtain results where
    "r_rooms (fst (runDailyWhatsAppJob ?e w_empty)) = Some results"
    "length results = card (room_key ` set [ev, ev])"
    "set (map room results) = room_key ` set [ev, ev]"
    "count_sum results = length [ev, ev]"
    by blast
  then have one: "\<exists>results.
          r_rooms (fst (runDailyWhatsAppJob ?e w_empty)) = Some results
        \<and> length results = 1
        \<and> set (map room results) = {''Ward A''}
        \<and> count_sum results = 2"
    by (simp add: room_key_ev)
  let ?e2 = "env_of [ev, ev_b, ev]"
  have q2: "select_surgeries ?e2 (d2Date ?e2) None = Inr (Some [ev, ev_b, ev])"
    by (simp add: env_of_def)
  have ne2: "[ev, ev_b, ev] \<noteq> []" by simp
  have pl2: "\<forall>s \<in> set [ev, ev_b, ev]. \<not> inherited (room_key s)"
    by (simp add: room_key_ev room_key_ev_b not_inherited_Ward)
  have s2: "room_key ` set [ev, ev_b, ev] = {''Ward A'', ''Ward B''}"
    by (auto simp add: room_key_ev room_key_ev_b)
  have c2: "card (room_key ` set [ev, ev_b, ev]) = 2"
    unfolding s2 by simp
  have f2: "length (filter (\<lambda>s. resolves ?e2 (room_key s)) [ev, ev_b, ev]) = 2"
    by (simp add: room_key_ev room_key_ev_b resolves_Ward_A not_resolves_Ward_B)
  from room_results_per_key [OF q2 ne2 pl2, of w_empty] obtain results2 where r2:
    "r_rooms (fst (runDailyWhatsAppJob ?e2 w_empty)) = Some results2"
    "length results2 = card (room_key ` set [ev, ev_b, ev])"
    "distinct (map room results2)"
    "set (map room results2) = room_key ` set [ev, ev_b, ev]"
    "\<forall>r \<in> set results2. surgery_count r =
        (if resolves ?e2 (room r)
         then Some (length (filter (\<lambda>s. room_key s = room r) [ev, ev_b, ev])) else None)"
    "count_sum results2 = length (filter (\<lambda>s. resolves ?e2 (room_key s)) [ev, ev_b, ev])"
    by blast
  have each: "\<forall>r \<in> set results2. surgery_count r = (if room r = ''Ward A'' then Some 2 else None)"
  proof
    fix r assume r: "r \<in> set results2"
    then have "room r \<in> {''Ward A'', ''Ward B''}" using r2(4) unfolding s2 by auto
    then consider "room r = ''Ward A''" | "room r = ''Ward B''" by auto
    then show "surgery_count r = (if room r = ''Ward A'' then Some 2 else None)"
    proof cases
      case 1
      with r r2(5) show ?thesis
        by (simp add: resolves_Ward_A room_key_ev room_key_ev_b)
    next
      case 2
      with r r2(5) show ?thesis
        by (simp add: not_resolves_Ward_B)
    qed
  qed
  have two: "\<exists>results.
          r_rooms (fst (runDailyWhatsAppJob ?e2 w_empty)) = Some results
        \<and> length results = 2
        \<and> distinct (map room results)
        \<and> set (map room results) = {''Ward A'', ''Ward B''}
        \<and> (\<forall>r \<in> set results. surgery_count r = (if room r = ''Ward A'' then Some 2 else None))
        \<and> count_sum results = 2"
    using r2(1,3) r2(2) [unfolded c2] r2(4) [unfolded s2] each r2(6) [unfolded f2]
    by (intro exI [of _ results2] conjI)
  have m: "map room_key [ev, ev] = [''Ward A'', ''Ward A'']"
     "map room_key [ev, ev_b, ev] = [''Ward A'', ''Ward B'', ''Ward A'']"
    by (simp_all add: room_key_ev room_key_ev_b)
  show ?thesis
    by (intro conjI q ne m not_inherited_Ward resolves_Ward_A not_resolves_Ward_B one q2 two)
qed

text \<open>
  C3 as stated fails when a group's destination does not resolve: the one event of
  Ward B, which has no rule, gives one room result with status \<open>skipped\<close> and no
  \<open>surgery_count\<close>, so the counts sum to 0 and not to 1.
\<close>

theorem skipped_group_counterexample:
  "select_surgeries (env_of [ev_b]) (d2Date (env_of [ev_b])) None = Inr (Some [ev_b])
   \<and> r_rooms (fst (runDailyWhatsAppJob (env_of [ev_b]) w_empty)) =
       Some [\<lparr>room = ''Ward B'', phone = None, status = ''skipped'', surgery_count = None,
              wa_response = None,
              reason = Some (''No phone number found for room '' @ dq @ ''Ward B'' @ dq
                             @ '' in mst_parameter, skipping.''),
              resent_at = None\<rparr>]
   \<and> count_sum (the (r_rooms (fst (runDailyWhatsAppJob (env_of [ev_b]) w_empty)))) = 0
   \<and> length [ev_b] = 1"
  by (simp add: run_ev_b count_sum_def) (simp add: env_of_def)


section \<open>Reconciliation reporter\<close>


















lemma whatsapp_status_ok:
  assumes "select_surgeries e date None = Inr data" and "log_select_fails e = None"
  shows "whatsapp_status e date w =
           (let surgeries = (case data of None \<Rightarrow> [] | Some l \<Rightarrow> l);
                counts = roomCounts surgeries;
                uniqueRooms = object_keys counts;
                phones = roomPhones (case select_params e uniqueRooms of None \<Rightarrow> [] | Some ps \<Rightarrow> ps);
                latestLog = select_latest_log (cron_job_logs w) date
            in Inr \<lparr>target_date = date, total_surgeries = length surgeries,
                    rooms = map (room_report counts phones latestLog) uniqueRooms,
                    overall_log_status =
                      (case latestLog of None \<Rightarrow> ''no_log_found'' | Some l \<Rightarrow> log_status l)\<rparr>)"
  using assms by (simp add: whatsapp_status_def Let_def)








text \<open>
  The groups that the amended C1 leaves out. With one event in Ward A and one in a room
  named \<open>constructor\<close>, and no log, the report gives the second room a text for its
  count, no status, and \<open>has_updates\<close> false: \<open>logResults[room]\<close> and \<open>roomCounts[room]\<close>
  read the inherited function.
\<close>

lemma status_inherited_room_example:
  "\<exists>rep. whatsapp_status (env_of [ev, ev_ctor]) ''2024-05-03'' w_empty = Inr rep
        \<and> map st_room (rooms rep) = [''Ward A'', ''constructor'']
        \<and> map st_surgery_count (rooms rep) = [Count 1, FnText ''constructor'' 1]
        \<and> map st_status (rooms rep) = [Some ''need_resend'', None]
        \<and> map st_has_updates (rooms rep) = [True, False]"
proof -
  let ?e = "env_of [ev, ev_ctor]"
  have q: "select_surgeries ?e ''2024-05-03'' None = Inr (Some [ev, ev_ctor])"
    and l: "log_select_fails ?e = None"
    by (simp_all add: env_of_def)
  have rk: "room_key ev_ctor = ''constructor''"
    by (simp add: room_key_def or_else_def ev_ctor_def ev_def)
  have rc: "roomCounts [ev, ev_ctor] = [(''Ward A'', Count 1), (''constructor'', FnText ''constructor'' 1)]"
    by (simp add: roomCounts_def count_step_def room_key_ev rk inherited_functions_def Let_def)
  have k: "object_keys (roomCounts [ev, ev_ctor]) = [''Ward A'', ''constructor'']"
    unfolding rc by (simp add: object_keys_def is_array_index_def is_digit_def)
  have n: "select_latest_log [] ''2024-05-03'' = None"
    by (simp add: select_latest_log_def)
  have g: "results_get (logResults None) ''Ward A'' = NoEntry"
    "results_get (logResults None) ''constructor'' = Foreign"
    by (simp_all add: logResults_def results_get_def inherited_def inherited_functions_def)
  show ?thesis
    unfolding whatsapp_status_ok [OF q l] Let_def
    by (simp add: k) (simp add: rc n w_empty_def room_report_def g get_count_def count_gt_def
        logSurgeryCount_def Let_def)
qed


section \<open>Manual resend handler\<close>

lemma resend_no_events:
  assumes "truthy req_date" and "truthy req_room"
    and "select_surgeries e (template req_date) (Some (template req_room)) = Inr data"
    and "(case data of None \<Rightarrow> [] | Some l \<Rightarrow> l) = []"
  shows "resend label compose e req_date req_room w =
           (ResendError 404 (''No surgeries found for room '' @ dq @ template req_room @ dq
                             @ '' on '' @ template req_date @ ''.''), w)"
  using assms by (simp add: resend_def Let_def)

lemma resend_lookup_error:
  assumes "truthy req_date" and "truthy req_room"
    and "select_surgeries e (template req_date) (Some (template req_room)) = Inr data"
    and "(case data of None \<Rightarrow> [] | Some l \<Rightarrow> l) \<noteq> []"
    and "lookup_param e (template req_room) = Inl pError"
  shows "resend label compose e req_date req_room w = (ResendError 500 ''Internal server error'', w)"
  using assms by (simp add: resend_def Let_def)

lemma resolves_iff:
  "lookup_param e k = Inr prm \<Longrightarrow>
     resolves e k = truthy (case prm of None \<Rightarrow> None | Some p \<Rightarrow> param_value p)"
  by (simp add: resolves_def truthy_def split: option.splits)

lemma resend_no_destination:
  assumes "truthy req_date" and "truthy req_room"
    and "select_surgeries e (template req_date) (Some (template req_room)) = Inr data"
    and "(case data of None \<Rightarrow> [] | Some l \<Rightarrow> l) \<noteq> []"
    and "lookup_param e (template req_room) = Inr prm"
    and "\<not> resolves e (template req_room)"
  shows "resend label compose e req_date req_room w =
           (ResendError 400 (''No phone number configured for room '' @ dq @ template req_room
                             @ dq @ ''.''), w)"
  using assms resolves_iff [OF assms(5)] by (simp add: resend_def Let_def)

text \<open>The room result that a resend records, from the request, the store's answers and the send.\<close>

lemma resend_sent:
  assumes "truthy req_date" and "truthy req_room"
    and "select_surgeries e (template req_date) (Some (template req_room)) = Inr (Some ss)"
    and "ss \<noteq> []"
    and "lookup_param e (template req_room) = Inr (Some p)"
    and "truthy (param_value p)"
  shows "resend label compose e req_date req_room w =
           (let message = compose (or_else (param_name p) (template req_room)) (template req_date) ss;
                sent = sendWhatsAppMessage e (template (param_value p)) message w;
                resendStatus =
                  \<lparr>room = template req_room, phone = Some (template (param_value p)),
                   status = (if success (fst sent) then ''sent'' else ''send_failed''),
                   surgery_count = Some (length ss), wa_response = Some (fst sent),
                   reason = None, resent_at = Some (nowISO e)\<rparr>
            in (ResendOk (success (fst sent)) (fst sent),
                merge_log e (template req_date) (template req_room) (fst sent) resendStatus (snd sent)))"
  using assms by (simp add: resend_def Let_def case_prod_beta)

text \<open>A resend answers 200 on that path only.\<close>

lemma resend_ok_cases:
  assumes "resend label compose e req_date req_room w = (ResendOk b sr, w')"
  obtains ss p where "truthy req_date" and "truthy req_room"
    and "select_surgeries e (template req_date) (Some (template req_room)) = Inr (Some ss)"
    and "ss \<noteq> []"
    and "lookup_param e (template req_room) = Inr (Some p)"
    and "truthy (param_value p)"
proof -
  from assms have t: "truthy req_date" "truthy req_room"
    by (auto simp: resend_def split: if_splits)
  from assms t obtain data where
    q: "select_surgeries e (template req_date) (Some (template req_room)) = Inr data"
    by (cases "select_surgeries e (template req_date) (Some (template req_room))")
       (auto simp: resend_def Let_def)
  from assms t q obtain ss where d: "data = Some ss" "ss \<noteq> []"
    by (cases data) (auto simp: resend_def Let_def split: if_splits)
  from assms t q d obtain prm where
    l: "lookup_param e (template req_room) = Inr prm"
    by (cases "lookup_param e (template req_room)") (auto simp: resend_def Let_def)
  from assms t q d l obtain p where p: "prm = Some p" "truthy (param_value p)"
    by (cases prm) (auto simp: resend_def Let_def truthy_def split: if_splits)
  show ?thesis using that t q d l p by simp
qed

text \<open>
  C5, as amended. For a resend request with both date and group supplied that the store
  answers: when no current event matches the date and group, the handler replies 404
  (not found); when events match but the lookup finds no active rule with a non-empty
  address for the group, it replies 400, the status it also uses for a missing input.
  In both cases nothing is sent and the log table is not written. This holds for both
  resend handlers.
\<close>

theorem resend_rejects_without_effect:
  assumes "h = cron_whatsapp_resend \<or> h = whatsapp_resend"
    and "truthy req_date" and "truthy req_room"
    and "select_surgeries e (template req_date) (Some (template req_room)) = Inr data"
  shows "((case data of None \<Rightarrow> [] | Some l \<Rightarrow> l) = [] \<longrightarrow>
            h e req_date req_room w =
              (ResendError 404 (''No surgeries found for room '' @ dq @ template req_room @ dq
                                @ '' on '' @ template req_date @ ''.''), w))
       \<and> ((case data of None \<Rightarrow> [] | Some l \<Rightarrow> l) \<noteq> []
            \<and> (\<exists>prm. lookup_param e (template req_room) = Inr prm)
            \<and> \<not> resolves e (template req_room) \<longrightarrow>
            h e req_date req_room w =
              (ResendError 400 (''No phone number configured for room '' @ dq @ template req_room
                                @ dq @ ''.''), w))"
proof -
  from assms(1) obtain label compose where h: "h = resend label compose"
    by (auto simp: cron_whatsapp_resend_def whatsapp_resend_def)
  show ?thesis
    unfolding h
    using resend_no_events [OF assms(2,3,4)] resend_no_destination [OF assms(2,3,4)]
    by blast
qed

lemma truthy_Some: "s \<noteq> [] \<Longrightarrow> truthy (Some s)"
  by (simp add: truthy_def)

theorem resend_rejects_without_effect_witness:
  "truthy (Some ''2024-05-03'') \<and> truthy (Some ''Ward C'')
   \<and> select_surgeries (env_of []) ''2024-05-03'' (Some ''Ward C'') = Inr (Some [])
   \<and> cron_whatsapp_resend (env_of []) (Some ''2024-05-03'') (Some ''Ward C'') w_logged =
       (ResendError 404 (''No surgeries found for room '' @ dq @ ''Ward C'' @ dq
                         @ '' on 2024-05-03.''), w_logged)
   \<and> select_surgeries (env_of [ev_b]) ''2024-05-03'' (Some ''Ward B'') = Inr (Some [ev_b])
   \<and> lookup_param (env_of [ev_b]) ''Ward B'' = Inr None
   \<and> \<not> resolves (env_of [ev_b]) ''Ward B''
   \<and> whatsapp_resend (env_of [ev_b]) (Some ''2024-05-03'') (Some ''Ward B'') w_logged =
       (ResendError 400 (''No phone number configured for room '' @ dq @ ''Ward B'' @ dq @ ''.''),
        w_logged)"
proof -
  have t: "truthy (Some ''2024-05-03'')" "truthy (Some ''Ward C'')" "truthy (Some ''Ward B'')"
    by (simp_all add: truthy_def)
  have q1: "select_surgeries (env_of []) (template (Some ''2024-05-03'')) (Some (template (Some ''Ward C'')))
              = Inr (Some [])"
    by (simp add: env_of_def)
  have q2: "select_surgeries (env_of [ev_b]) (template (Some ''2024-05-03'')) (Some (template (Some ''Ward B'')))
              = Inr (Some [ev_b])"
    by (simp add: env_of_def)
  have l2: "lookup_param (env_of [ev_b]) ''Ward B'' = Inr None"
    by (simp add: env_of_def)
  have a: "cron_whatsapp_resend (env_of []) (Some ''2024-05-03'') (Some ''Ward C'') w_logged =
       (ResendError 404 (''No surgeries found for room '' @ dq @ ''Ward C'' @ dq
                         @ '' on 2024-05-03.''), w_logged)"
    using resend_rejects_without_effect [OF disjI1 [OF refl] t(1) t(2) q1, of w_logged]
    by (simp add: template_def)
  have b: "whatsapp_resend (env_of [ev_b]) (Some ''2024-05-03'') (Some ''Ward B'') w_logged =
       (ResendError 400 (''No phone number configured for room '' @ dq @ ''Ward B'' @ dq @ ''.''),
        w_logged)"
    using resend_rejects_without_effect [OF disjI2 [OF refl] t(1) t(3) q2, of w_logged]
      l2 not_resolves_Ward_B [of "[ev_b]"]
    by (simp add: template_def)
  show ?thesis
    using t a b l2 not_resolves_Ward_B [of "[ev_b]"] q1 q2 by (simp add: template_def)
qed

text \<open>
  C5 as stated fails for a group without an active rule: the reply is 400, the status
  of a bad request, and not 404.
\<close>

theorem no_destination_counterexample:
  "cron_whatsapp_resend (env_of [ev_b]) (Some ''2024-05-03'') (Some ''Ward B'') w_empty =
     (ResendError 400 (''No phone number configured for room '' @ dq @ ''Ward B'' @ dq @ ''.''),
      w_empty)
   \<and> whatsapp_resend (env_of [ev_b]) (Some ''2024-05-03'') (Some ''Ward B'') w_empty =
     (ResendError 400 (''No phone number configured for room '' @ dq @ ''Ward B'' @ dq @ ''.''),
      w_empty)"
  by (simp add: cron_whatsapp_resend_def whatsapp_resend_def resend_def truthy_def template_def
      env_of_def)


section \<open>The upsert\<close>

lemma upsert_Nil: "upsert_room rm x [] = [x]"
  by (simp add: upsert_room_def)

lemma upsert_Cons:
  "upsert_room rm x (r # rs) = (if room r = rm then x # rs else r # upsert_room rm x rs)"
  by (simp add: upsert_room_def split: option.splits)



lemma upsert_names:
  "room x = rm \<Longrightarrow>
     map room (upsert_room rm x rs) =
       (if rm \<in> set (map room rs) then map room rs else map room rs @ [rm])"
  by (induction rs) (auto simp: upsert_Nil upsert_Cons)

lemma upsert_distinct:
  "room x = rm \<Longrightarrow> distinct (map room rs) \<Longrightarrow> distinct (map room (upsert_room rm x rs))"
  by (simp add: upsert_names)

lemma upsert_same:
  "room x = rm \<Longrightarrow> distinct (map room rs) \<Longrightarrow>
     filter (\<lambda>r. room r = rm) (upsert_room rm x rs) = [x]"
proof (induction rs)
  case Nil
  then show ?case by (simp add: upsert_Nil)
next
  case (Cons r rs)
  show ?case
  proof (cases "room r = rm")
    case True
    from Cons.prems(2) have "room r \<notin> room ` set rs" by simp
    with True have "rm \<notin> room ` set rs" by simp
    then have "\<forall>y \<in> set rs. room y \<noteq> rm" by blast
    then have "filter (\<lambda>r. room r = rm) rs = []" by (simp add: filter_empty_conv)
    with True Cons.prems show ?thesis by (simp add: upsert_Cons)
  next
    case False
    with Cons show ?thesis by (simp add: upsert_Cons)
  qed
qed

section \<open>The merge into the log\<close>

lemma rooms_parse_or_empty:
  "(case d_rooms (parse_or_empty (details l)) of None \<Rightarrow> [] | Some x \<Rightarrow> x) = logged_rooms (Some l)"
  by (simp add: parse_or_empty_def logged_rooms_def split: stored_details.splits)

lemma merge_log_matched:
  assumes "log_select_fails e = None" and "select_latest_log (cron_job_logs w) date = Some l"
  shows "cron_job_logs (merge_log e date rm sr x w) =
           map (\<lambda>r. if log_id r = log_id l
                     then r\<lparr>details := Parsed ((parse_or_empty (details l))
                                            \<lparr>d_rooms := Some (upsert_room rm x (logged_rooms (Some l)))\<rparr>),
                            summary := Some (template (summary l) @ '' (Manual resend for '' @ rm
                                             @ '' at '' @ nowLocaleTime e @ '')'')\<rparr>
                     else r)
             (cron_job_logs w)"
  using assms by (simp add: merge_log_def Let_def rooms_parse_or_empty)

lemma merge_log_unmatched:
  assumes "log_select_fails e \<noteq> None \<or> select_latest_log (cron_job_logs w) date = None"
  shows "cron_job_logs (merge_log e date rm sr x w) =
           cron_job_logs w @
             [\<lparr>log_id = next_id (cron_job_logs w), job_name = job,
               log_status = (if success sr then ''success'' else ''error''),
               summary = Some (''Manual resend for room '' @ rm @ '' on date '' @ date),
               details = Parsed \<lparr>d_targetDate = Some date, d_rooms = Some [x]\<rparr>,
               started_at = Some (nowISO e), finished_at = Some (nowISO e),
               timestamp = nowISO e\<rparr>]"
  using assms by (auto simp: merge_log_def Let_def split: option.splits)

text \<open>The log table after a resend that answered 200.\<close>

lemma resend_ok_logs:
  assumes "resend label compose e req_date req_room w = (ResendOk b sr, w')"
  obtains x where "room x = template req_room" and "wa_response x = Some sr"
    and "status x = (if b then ''sent'' else ''send_failed'')"
    and "resent_at x = Some (nowISO e)"
    and "cron_job_logs w' =
           cron_job_logs (merge_log e (template req_date) (template req_room) sr x w)"
proof -
  from assms obtain ss p where c: "truthy req_date" "truthy req_room"
    "select_surgeries e (template req_date) (Some (template req_room)) = Inr (Some ss)"
    "ss \<noteq> []" "lookup_param e (template req_room) = Inr (Some p)" "truthy (param_value p)"
    by (rule resend_ok_cases)
  define sent where "sent = sendWhatsAppMessage e (template (param_value p))
                 (compose (or_else (param_name p) (template req_room)) (template req_date) ss) w"
  define x where "x = \<lparr>room = template req_room, phone = Some (template (param_value p)),
             status = (if success (fst sent) then ''sent'' else ''send_failed''),
             surgery_count = Some (length ss), wa_response = Some (fst sent),
             reason = None, resent_at = Some (nowISO e)\<rparr>"
  have r: "resend label compose e req_date req_room w =
             (ResendOk (success (fst sent)) (fst sent),
              merge_log e (template req_date) (template req_room) (fst sent) x (snd sent))"
    using resend_sent [OF c, of label compose w] by (simp add: Let_def sent_def x_def)
  have "(ResendOk (success (fst sent)) (fst sent),
         merge_log e (template req_date) (template req_room) (fst sent) x (snd sent))
        = (ResendOk b sr, w')"
    by (rule trans [OF r [symmetric] assms])
  then have eq: "success (fst sent) = b" "fst sent = sr"
    "merge_log e (template req_date) (template req_room) (fst sent) x (snd sent) = w'"
    by auto
  have logs: "cron_job_logs (snd sent) = cron_job_logs w"
    unfolding sent_def by (rule sendWhatsAppMessage_logs)
  have "cron_job_logs (merge_log e d rm s y w1) = cron_job_logs (merge_log e d rm s y w2)"
    if "cron_job_logs w1 = cron_job_logs w2" for d rm s y w1 w2
    using that by (simp add: merge_log_def Let_def split: option.splits)
  from this [OF logs] have l: "cron_job_logs w' =
      cron_job_logs (merge_log e (template req_date) (template req_room) sr x w)"
    unfolding eq [symmetric] .
  have px: "room x = template req_room" "wa_response x = Some sr"
    "status x = (if b then ''sent'' else ''send_failed'')" "resent_at x = Some (nowISO e)"
    using eq by (simp_all add: x_def)
  show ?thesis
    by (rule that [OF px l])
qed



lemma resend_env_ok:
  "fst (resend label compose (env_of [ev]) (Some ''2024-05-03'') (Some ''Ward A'') w)
     = ResendOk True sr_ok"
proof -
  let ?e = "env_of [ev]"
  have c: "truthy (Some ''2024-05-03'')" "truthy (Some ''Ward A'')"
    "select_surgeries ?e (template (Some ''2024-05-03'')) (Some (template (Some ''Ward A'')))
       = Inr (Some [ev])"
    "[ev] \<noteq> []"
    "lookup_param ?e (template (Some ''Ward A''))
       = Inr (Some \<lparr>param_name = Some ''Ward A'', param_value = Some ''0811''\<rparr>)"
    "truthy (param_value \<lparr>param_name = Some ''Ward A'', param_value = Some ''0811''\<rparr>)"
    by (simp_all add: truthy_def template_def env_of_def)
  have s: "fst (sendWhatsAppMessage ?e t m w) = sr_ok" for t m
    by (simp add: sendWhatsAppMessage_def env_of_def truthy_def sr_ok_def)
  show ?thesis
    unfolding resend_sent [OF c] Let_def by (simp add: s sr_ok_def)
qed




section \<open>Selecting the latest matching row\<close>

lemma latest_None: "latest xs = None \<longleftrightarrow> xs = []"
  by (induction xs) (auto split: option.splits)

lemma latest_mem: "latest xs = Some r \<Longrightarrow> r \<in> set xs"
  by (induction xs arbitrary: r) (auto split: option.splits if_splits)

lemma latest_map:
  "(\<And>r. r \<in> set xs \<Longrightarrow> timestamp (u r) = timestamp r) \<Longrightarrow>
     latest (map u xs) = map_option u (latest xs)"
proof (induction xs)
  case Nil
  then show ?case by simp
next
  case (Cons x xs)
  have ih: "latest (map u xs) = map_option u (latest xs)"
    by (rule Cons.IH) (simp add: Cons.prems)
  have tx: "timestamp (u x) = timestamp x" by (simp add: Cons.prems)
  show ?case
  proof (cases "latest xs")
    case None
    then show ?thesis by (simp add: ih)
  next
    case (Some r)
    then have "r \<in> set xs" by (rule latest_mem)
    then have "timestamp (u r) = timestamp r" by (simp add: Cons.prems)
    with Some show ?thesis by (simp add: ih tx)
  qed
qed

lemma select_latest_log_cases:
  "select_latest_log rows date = Some l \<Longrightarrow>
     l \<in> set rows \<and> job_name l = job \<and> ilike_contains (summary l) date"
  unfolding select_latest_log_def by (drule latest_mem) simp

lemma select_latest_log_map:
  assumes "\<And>r. r \<in> set rows \<Longrightarrow> timestamp (u r) = timestamp r"
    and "\<And>r. r \<in> set rows \<Longrightarrow>
           (job_name (u r) = job \<and> ilike_contains (summary (u r)) date)
           = (job_name r = job \<and> ilike_contains (summary r) date)"
  shows "select_latest_log (map u rows) date = map_option u (select_latest_log rows date)"
proof -
  let ?P = "\<lambda>r. job_name r = job \<and> ilike_contains (summary r) date"
  have "filter ?P (map u rows) = map u (filter (?P \<circ> u) rows)"
    by (simp add: filter_map)
  also have "filter (?P \<circ> u) rows = filter ?P rows"
    by (rule filter_cong) (simp_all add: assms(2))
  finally have "select_latest_log (map u rows) date = latest (map u (filter ?P rows))"
    by (simp add: select_latest_log_def)
  also have "\<dots> = map_option u (latest (filter ?P rows))"
    by (rule latest_map) (simp add: assms(1))
  finally show ?thesis by (simp add: select_latest_log_def)
qed

lemma ilike_append: "ilike_contains (Some s) d \<Longrightarrow> ilike_contains (Some (s @ t)) d"
proof -
  assume "ilike_contains (Some s) d"
  then obtain p q where "map lower s = p @ map lower d @ q"
    by (auto simp: ilike_contains_def sublist_def)
  then have "map lower (s @ t) = p @ map lower d @ (q @ map lower t)" by simp
  then show ?thesis
    unfolding ilike_contains_def option.case sublist_def by blast
qed

lemma ilike_suffix: "ilike_contains (Some (a @ d)) d"
  by (simp add: ilike_contains_def)

lemma ilike_Some: "ilike_contains v d \<Longrightarrow> \<exists>s. v = Some s"
  by (cases v) (simp_all add: ilike_contains_def)

section \<open>The well-formed log table is kept\<close>

lemma store_ok_cong: "cron_job_logs w1 = cron_job_logs w2 \<Longrightarrow> store_ok w1 = store_ok w2"
  by (simp add: store_ok_def)

lemma merge_log_cong:
  "cron_job_logs w1 = cron_job_logs w2 \<Longrightarrow>
     cron_job_logs (merge_log e d rm s y w1) = cron_job_logs (merge_log e d rm s y w2)"
  by (simp add: merge_log_def Let_def split: option.splits)

lemma rooms_unique_update:
  "distinct (map room rs) \<Longrightarrow>
     rooms_unique (r\<lparr>details := Parsed (obj\<lparr>d_rooms := Some rs\<rparr>), summary := s\<rparr>)"
  by (simp add: rooms_unique_def logged_rooms_def)

lemma store_ok_append:
  assumes "store_ok w" and "log_id r = next_id (cron_job_logs w)" and "rooms_unique r"
  shows "store_ok (w\<lparr>cron_job_logs := cron_job_logs w @ [r]\<rparr>)"
proof -
  have "log_id x \<noteq> log_id r" if "x \<in> set (cron_job_logs w)" for x
    using next_id_fresh [OF that] assms(2) by simp
  then have "\<forall>x \<in> set (cron_job_logs w). log_id x \<noteq> log_id r" by blast
  then have "log_id r \<notin> log_id ` set (cron_job_logs w)" by (metis imageE)
  then have "log_id r \<notin> set (map log_id (cron_job_logs w))" by simp
  with assms show ?thesis by (simp add: store_ok_def)
qed

lemma store_ok_map:
  assumes "store_ok w" and "\<And>r. r \<in> set (cron_job_logs w) \<Longrightarrow> log_id (u r) = log_id r"
    and "\<And>r. r \<in> set (cron_job_logs w) \<Longrightarrow> rooms_unique r \<Longrightarrow> rooms_unique (u r)"
  shows "store_ok (w\<lparr>cron_job_logs := map u (cron_job_logs w)\<rparr>)"
proof -
  have "map log_id (map u (cron_job_logs w)) = map log_id (cron_job_logs w)"
    by (simp add: assms(2))
  then have "distinct (map log_id (map u (cron_job_logs w)))"
    using assms(1) by (simp only: store_ok_def)
  moreover have "\<forall>r \<in> set (map u (cron_job_logs w)). rooms_unique r"
    using assms(1,3) by (auto simp: store_ok_def)
  ultimately show ?thesis by (simp only: store_ok_def world.simps) simp
qed


lemma distinct_ids_eq:
  assumes "store_ok w" and "r \<in> set (cron_job_logs w)" and "l \<in> set (cron_job_logs w)"
    and "log_id r = log_id l"
  shows "r = l"
proof -
  from assms(1) have "inj_on log_id (set (cron_job_logs w))"
    by (simp add: store_ok_def distinct_map)
  then show ?thesis using assms(4,2,3) by (rule inj_onD)
qed

lemma store_ok_rooms:
  "store_ok w \<Longrightarrow> l \<in> set (cron_job_logs w) \<Longrightarrow> distinct (map room (logged_rooms (Some l)))"
  by (simp add: store_ok_def rooms_unique_def)

lemma merge_log_ok:
  assumes "store_ok w" and "room x = rm"
  shows "store_ok (merge_log e d rm s x w)"
proof (cases "log_select_fails e = None \<and> (\<exists>l. select_latest_log (cron_job_logs w) d = Some l)")
  case True
  then obtain l where lf: "log_select_fails e = None"
    and sel: "select_latest_log (cron_job_logs w) d = Some l" by blast
  from sel have mem: "l \<in> set (cron_job_logs w)" by (simp add: select_latest_log_cases)
  let ?u = "\<lambda>r. if log_id r = log_id l
                 then r\<lparr>details := Parsed ((parse_or_empty (details l))
                                        \<lparr>d_rooms := Some (upsert_room rm x (logged_rooms (Some l)))\<rparr>),
                        summary := Some (template (summary l) @ '' (Manual resend for '' @ rm
                                         @ '' at '' @ nowLocaleTime e @ '')'')\<rparr>
                 else r"
  have d: "distinct (map room (upsert_room rm x (logged_rooms (Some l))))"
    using upsert_distinct [OF assms(2)] store_ok_rooms [OF assms(1) mem] by simp
  have "store_ok (w\<lparr>cron_job_logs := map ?u (cron_job_logs w)\<rparr>)"
    by (rule store_ok_map [OF assms(1)]) (simp_all add: rooms_unique_update [OF d])
  moreover have "cron_job_logs (merge_log e d rm s x w)
                 = cron_job_logs (w\<lparr>cron_job_logs := map ?u (cron_job_logs w)\<rparr>)"
    by (simp add: merge_log_matched [OF lf sel])
  then have "store_ok (merge_log e d rm s x w)
             = store_ok (w\<lparr>cron_job_logs := map ?u (cron_job_logs w)\<rparr>)"
    by (rule store_ok_cong)
  ultimately show ?thesis by blast
next
  case False
  then have un: "log_select_fails e \<noteq> None \<or> select_latest_log (cron_job_logs w) d = None"
    by auto
  let ?new = "\<lparr>log_id = next_id (cron_job_logs w), job_name = job,
               log_status = (if success s then ''success'' else ''error''),
               summary = Some (''Manual resend for room '' @ rm @ '' on date '' @ d),
               details = Parsed \<lparr>d_targetDate = Some d, d_rooms = Some [x]\<rparr>,
               started_at = Some (nowISO e), finished_at = Some (nowISO e),
               timestamp = nowISO e\<rparr>"
  have "store_ok (w\<lparr>cron_job_logs := cron_job_logs w @ [?new]\<rparr>)"
    by (rule store_ok_append [OF assms(1)]) (simp_all add: rooms_unique_def logged_rooms_def)
  moreover have "cron_job_logs (merge_log e d rm s x w)
                 = cron_job_logs (w\<lparr>cron_job_logs := cron_job_logs w @ [?new]\<rparr>)"
    by (simp add: merge_log_unmatched [OF un])
  then have "store_ok (merge_log e d rm s x w)
             = store_ok (w\<lparr>cron_job_logs := cron_job_logs w @ [?new]\<rparr>)"
    by (rule store_ok_cong)
  ultimately show ?thesis by blast
qed


lemma merge_step:
  assumes "store_ok w" and "log_select_fails e = None"
  shows "\<exists>l'. select_latest_log (cron_job_logs (merge_log e d rm s x w)) d = Some l'
            \<and> logged_rooms (Some l')
                = upsert_room rm x (logged_rooms (select_latest_log (cron_job_logs w) d))"
proof (cases "select_latest_log (cron_job_logs w) d")
  case None
  let ?P = "\<lambda>r. job_name r = job \<and> ilike_contains (summary r) d"
  let ?new = "\<lparr>log_id = next_id (cron_job_logs w), job_name = job,
               log_status = (if success s then ''success'' else ''error''),
               summary = Some (''Manual resend for room '' @ rm @ '' on date '' @ d),
               details = Parsed \<lparr>d_targetDate = Some d, d_rooms = Some [x]\<rparr>,
               started_at = Some (nowISO e), finished_at = Some (nowISO e),
               timestamp = nowISO e\<rparr>"
  from None have e0: "filter ?P (cron_job_logs w) = []"
    by (simp add: select_latest_log_def latest_None)
  have "ilike_contains (Some ((''Manual resend for room '' @ rm @ '' on date '') @ d)) d"
    by (rule ilike_suffix)
  then have p: "?P ?new" by simp
  have "select_latest_log (cron_job_logs w @ [?new]) d = Some ?new"
    unfolding select_latest_log_def filter_append e0 using p by simp
  moreover have "logged_rooms (Some ?new) = upsert_room rm x (logged_rooms None)"
    by (simp add: logged_rooms_def upsert_Nil)
  ultimately show ?thesis
    unfolding merge_log_unmatched [OF disjI2 [OF None]] None by blast
next
  case (Some l)
  from Some have mem: "l \<in> set (cron_job_logs w)" and jl: "job_name l = job"
    and il: "ilike_contains (summary l) d"
    by (simp_all add: select_latest_log_cases)
  from il obtain t where t: "summary l = Some t" by (auto dest: ilike_Some)
  let ?suffix = "'' (Manual resend for '' @ rm @ '' at '' @ nowLocaleTime e @ '')''"
  let ?D = "(parse_or_empty (details l))\<lparr>d_rooms := Some (upsert_room rm x (logged_rooms (Some l)))\<rparr>"
  let ?u = "\<lambda>r. if log_id r = log_id l
                 then r\<lparr>details := Parsed ?D, summary := Some (template (summary l) @ ?suffix)\<rparr>
                 else r"
  have match: "ilike_contains (Some (template (summary l) @ ?suffix)) d"
    using il unfolding t by (simp only: template_def option.case ilike_append)
  have keep: "(job_name (?u r) = job \<and> ilike_contains (summary (?u r)) d)
              = (job_name r = job \<and> ilike_contains (summary r) d)"
    if "r \<in> set (cron_job_logs w)" for r
  proof (cases "log_id r = log_id l")
    case True
    then have "r = l" by (rule distinct_ids_eq [OF assms(1) that mem])
    then show ?thesis using jl il match by simp
  next
    case False
    then show ?thesis by simp
  qed
  have "select_latest_log (map ?u (cron_job_logs w)) d
          = map_option ?u (select_latest_log (cron_job_logs w) d)"
    by (rule select_latest_log_map) (simp_all add: keep)
  then have sel: "select_latest_log (map ?u (cron_job_logs w)) d = Some (?u l)"
    by (simp add: Some)
  have "logged_rooms (Some (?u l)) = upsert_room rm x (logged_rooms (Some l))"
    by (simp add: logged_rooms_def)
  with sel show ?thesis
    unfolding merge_log_matched [OF assms(2) Some] Some by blast
qed


lemma resend_error_world:
  "resend label compose e rd rr w = (ResendError c m, w') \<Longrightarrow> w' = w"
  by (auto simp: resend_def Let_def case_prod_beta split: if_splits sum.splits)

lemma resend_store_ok:
  assumes "store_ok w"
  shows "store_ok (snd (resend label compose e rd rr w))"
proof (cases "fst (resend label compose e rd rr w)")
  case (ResendError c m)
  then have "resend label compose e rd rr w = (ResendError c m, snd (resend label compose e rd rr w))"
    by (simp add: prod_eq_iff)
  then have "snd (resend label compose e rd rr w) = w" by (rule resend_error_world)
  with assms show ?thesis by simp
next
  case (ResendOk b sr)
  then have "resend label compose e rd rr w = (ResendOk b sr, snd (resend label compose e rd rr w))"
    by (simp add: prod_eq_iff)
  then obtain x where x: "room x = template rr"
    and logs: "cron_job_logs (snd (resend label compose e rd rr w)) =
                 cron_job_logs (merge_log e (template rd) (template rr) sr x w)"
    by (rule resend_ok_logs)
  from merge_log_ok [OF assms x] store_ok_cong [OF logs] show ?thesis
    by blast
qed


lemma insert_running_ok: "store_ok w \<Longrightarrow> store_ok (snd (insert_running e w))"
proof (cases "log_insert_fails e")
  case True
  then show "store_ok w \<Longrightarrow> ?thesis" by (simp add: insert_running_eq)
next
  case False
  assume ok: "store_ok w"
  let ?r = "\<lparr>log_id = next_id (cron_job_logs w), job_name = job, log_status = ''running'',
             summary = None, details = Null, started_at = Some (nowWIB e),
             finished_at = None, timestamp = nowWIB e\<rparr>"
  have "store_ok (w\<lparr>cron_job_logs := cron_job_logs w @ [?r]\<rparr>)"
    by (rule store_ok_append [OF ok]) (simp_all add: rooms_unique_def logged_rooms_def)
  with False show ?thesis by (simp add: insert_running_eq)
qed

lemma updateLog_ok:
  assumes "store_ok w"
    and "distinct (map room (case dets of None \<Rightarrow> []
                             | Some d \<Rightarrow> (case d_rooms d of None \<Rightarrow> [] | Some rs \<Rightarrow> rs)))"
  shows "store_ok (updateLog e i st summ dets w)"
proof (cases i)
  case None
  with assms(1) show ?thesis by (simp add: updateLog_def)
next
  case (Some n)
  let ?u = "\<lambda>r. if log_id r = n
                 then r\<lparr>log_status := st, summary := Some summ,
                        details := (case dets of None \<Rightarrow> Null | Some d \<Rightarrow> Parsed d),
                        finished_at := Some (nowWIB_later e)\<rparr>
                 else r"
  have u: "rooms_unique (?u r)" if "rooms_unique r" for r
    using that assms(2)
    by (simp add: rooms_unique_def logged_rooms_def split: option.splits)
  have "store_ok (w\<lparr>cron_job_logs := map ?u (cron_job_logs w)\<rparr>)"
    by (rule store_ok_map [OF assms(1)]) (simp_all add: u)
  with Some show ?thesis by (simp add: updateLog_def)
qed

lemma reduce_groups_distinct:
  "reduce_groups ss acc = Inr g \<Longrightarrow> distinct (map fst acc) \<Longrightarrow> distinct (map fst g)"
proof (induction ss arbitrary: acc)
  case Nil
  then show ?case by simp
next
  case (Cons s ss)
  from Cons.prems(1) obtain acc' where a: "group_step s acc = Inr acc'"
    and r: "reduce_groups ss acc' = Inr g"
    by (auto split: sum.splits)
  from keys_group_step [OF a] Cons.prems(2) have "distinct (map fst acc')" by auto
  from Cons.IH [OF r this] show ?case .
qed

lemma run_store_ok:
  assumes "store_ok w"
  shows "store_ok (snd (runDailyWhatsAppJob e w))"
proof (cases "select_surgeries e (d2Date e) None")
  case (Inl sError)
  then have "snd (runDailyWhatsAppJob e w) =
      updateLog e (fst (insert_running e w)) ''error'' (''Job failed: '' @ sError) None
        (snd (insert_running e w))"
    by (simp add: runDailyWhatsAppJob_def Let_def case_prod_beta)
  then show ?thesis
    using updateLog_ok [OF insert_running_ok [OF assms], of None] by simp
next
  case (Inr data)
  show ?thesis
  proof (cases "data = None \<or> data = Some []")
    case True
    show ?thesis
      unfolding run_zero [OF Inr True]
      using updateLog_ok [OF insert_running_ok [OF assms], of None] by simp
  next
    case False
    then obtain ss where d: "data = Some ss" and ne: "ss \<noteq> []" by (cases data) auto
    show ?thesis
    proof (cases "groupedByRoom ss")
      case (Inl err)
      show ?thesis
        unfolding run_thrown [OF Inr [unfolded d] ne Inl]
        using updateLog_ok [OF insert_running_ok [OF assms], of None] by simp
    next
      case (Inr g)
      then have dg: "distinct (map fst g)"
        unfolding groupedByRoom_def by (rule reduce_groups_distinct) simp
      let ?keys = "object_keys g"
      let ?lp = "process_rooms e (d2Date e) g ?keys [] (snd (insert_running e w))"
      have "store_ok (snd ?lp) = store_ok (snd (insert_running e w))"
        by (rule store_ok_cong) (rule process_rooms_logs)
      then have ok: "store_ok (snd ?lp)" using insert_running_ok [OF assms] by simp
      have "map room (fst ?lp) = ?keys"
        unfolding process_rooms_results [of e "d2Date e" g ?keys "[]" _ w]
        by (simp add: comp_def process_room_room)
      then have dist: "distinct (map room (fst ?lp))"
        by (simp add: distinct_object_keys [OF dg])
      have "snd (runDailyWhatsAppJob e w) =
          updateLog e (fst (insert_running e w)) ''success''
            (r_summary (fst (runDailyWhatsAppJob e w)))
            (Some \<lparr>d_targetDate = Some (d2Date e), d_rooms = Some (fst ?lp)\<rparr>) (snd ?lp)"
        by (simp add: run_nonempty [OF \<open>select_surgeries e (d2Date e) None = Inr data\<close> [unfolded d] ne Inr] Let_def)
      then show ?thesis
        using updateLog_ok [OF ok, of "Some \<lparr>d_targetDate = Some (d2Date e), d_rooms = Some (fst ?lp)\<rparr>"]
          dist by simp
    qed
  qed
qed


text \<open>
  C2. On a well-formed log table (the identifier is a key, and no row has two room
  results for one grouping key), every operation that writes details leaves the table
  well-formed: a run of the orchestrator and a resend through either handler, whatever
  they answer. And when the same date and group are resent twice in a row, both
  resends answering 200 and the store answering the log queries, the row that the
  date matches afterwards holds exactly one room result for the group: that of the
  second attempt, with its provider response, its status and its resend time.
\<close>

theorem resend_idempotent_per_group:
  assumes "h = cron_whatsapp_resend \<or> h = whatsapp_resend" and "store_ok w"
  shows "store_ok (snd (runDailyWhatsAppJob e w))
       \<and> store_ok (snd (h e req_date req_room w))
       \<and> (log_select_fails e = None \<and> log_select_fails e' = None
            \<and> h e req_date req_room w = (ResendOk b1 s1, w1)
            \<and> h e' req_date req_room w1 = (ResendOk b2 s2, w2)
          \<longrightarrow> (\<exists>l x. select_latest_log (cron_job_logs w2) (template req_date) = Some l
                    \<and> filter (\<lambda>r. room r = template req_room) (logged_rooms (Some l)) = [x]
                    \<and> wa_response x = Some s2
                    \<and> status x = (if b2 then ''sent'' else ''send_failed'')
                    \<and> resent_at x = Some (nowISO e')))"
proof -
  from assms(1) obtain label compose where h: "h = resend label compose"
    by (auto simp: cron_whatsapp_resend_def whatsapp_resend_def)
  let ?d = "template req_date" and ?rm = "template req_room"
  have twice: "\<exists>l x. select_latest_log (cron_job_logs w2) ?d = Some l
                    \<and> filter (\<lambda>r. room r = ?rm) (logged_rooms (Some l)) = [x]
                    \<and> wa_response x = Some s2
                    \<and> status x = (if b2 then ''sent'' else ''send_failed'')
                    \<and> resent_at x = Some (nowISO e')"
    if lf: "log_select_fails e = None" "log_select_fails e' = None"
      and r1: "resend label compose e req_date req_room w = (ResendOk b1 s1, w1)"
      and r2: "resend label compose e' req_date req_room w1 = (ResendOk b2 s2, w2)"
  proof -
    from r1 obtain x1 where x1: "room x1 = ?rm"
      and l1: "cron_job_logs w1 = cron_job_logs (merge_log e ?d ?rm s1 x1 w)"
      by (rule resend_ok_logs)
    from r2 obtain x2 where x2: "room x2 = ?rm" "wa_response x2 = Some s2"
      "status x2 = (if b2 then ''sent'' else ''send_failed'')" "resent_at x2 = Some (nowISO e')"
      and l2: "cron_job_logs w2 = cron_job_logs (merge_log e' ?d ?rm s2 x2 w1)"
      by (rule resend_ok_logs)
    have ok1: "store_ok w1"
      using merge_log_ok [OF assms(2) x1, of e ?d s1] store_ok_cong [OF l1] by blast
    from merge_step [OF assms(2) lf(1), of ?d ?rm s1 x1] obtain la where
      la: "select_latest_log (cron_job_logs w1) ?d = Some la"
      unfolding l1 by blast
    from la have "la \<in> set (cron_job_logs w1)" by (simp add: select_latest_log_cases)
    then have da: "distinct (map room (logged_rooms (Some la)))"
      by (rule store_ok_rooms [OF ok1])
    from merge_step [OF ok1 lf(2), of ?d ?rm s2 x2] obtain lb where
      lb: "select_latest_log (cron_job_logs w2) ?d = Some lb"
      and rb: "logged_rooms (Some lb) = upsert_room ?rm x2 (logged_rooms (Some la))"
      unfolding l2 la by blast
    have "filter (\<lambda>r. room r = ?rm) (logged_rooms (Some lb)) = [x2]"
      unfolding rb by (rule upsert_same [OF x2(1) da])
    with lb x2 show ?thesis by blast
  qed
  have run: "store_ok (snd (runDailyWhatsAppJob e w))"
    by (rule run_store_ok [OF assms(2)])
  have res: "store_ok (snd (h e req_date req_room w))"
    unfolding h by (rule resend_store_ok [OF assms(2)])
  show ?thesis
    using run res twice unfolding h by blast
qed

lemma store_ok_logged: "store_ok w_logged"
  by (simp add: store_ok_def w_logged_def rooms_unique_def logged_rooms_def row_1_def
      rr_a_def rr_b_def)

lemma store_ok_empty: "store_ok w_empty"
  by (simp add: store_ok_def w_empty_def)

lemma resent_once_eq:
  "cron_whatsapp_resend (env_of [ev]) (Some ''2024-05-03'') (Some ''Ward A'') w
     = (ResendOk True sr_ok, resent_once w)"
  using resend_env_ok [of "''date''" cron_resend_message w]
  by (simp add: cron_whatsapp_resend_def resent_once_def prod_eq_iff)

theorem resend_idempotent_per_group_witness:
  "store_ok w_logged \<and> store_ok w_empty
   \<and> log_select_fails (env_of [ev]) = None
   \<and> cron_whatsapp_resend (env_of [ev]) (Some ''2024-05-03'') (Some ''Ward A'') w_logged
       = (ResendOk True sr_ok, resent_once w_logged)
   \<and> cron_whatsapp_resend (env_of [ev]) (Some ''2024-05-03'') (Some ''Ward A'') (resent_once w_logged)
       = (ResendOk True sr_ok, resent_twice w_logged)
   \<and> store_ok (resent_once w_logged)
   \<and> (\<exists>l x. select_latest_log (cron_job_logs (resent_twice w_logged)) ''2024-05-03'' = Some l
            \<and> filter (\<lambda>r. room r = ''Ward A'') (logged_rooms (Some l)) = [x]
            \<and> wa_response x = Some sr_ok \<and> status x = ''sent'' \<and> resent_at x = Some 200)
   \<and> (\<exists>l x. select_latest_log (cron_job_logs (resent_twice w_empty)) ''2024-05-03'' = Some l
            \<and> filter (\<lambda>r. room r = ''Ward A'') (logged_rooms (Some l)) = [x]
            \<and> wa_response x = Some sr_ok \<and> status x = ''sent'' \<and> resent_at x = Some 200)"
proof -
  let ?e = "env_of [ev]" and ?d = "Some ''2024-05-03''" and ?r = "Some ''Ward A''"
  have td: "template ?d = ''2024-05-03''" and tr: "template ?r = ''Ward A''"
    by (simp_all add: template_def)
  have lf: "log_select_fails ?e = None" and now: "nowISO ?e = 200"
    by (simp_all add: env_of_def)
  have two: "cron_whatsapp_resend ?e ?d ?r (resent_once w) = (ResendOk True sr_ok, resent_twice w)"
    for w by (simp add: resent_once_eq resent_twice_def)
  note t1 = resend_idempotent_per_group [OF disjI1 [OF refl] store_ok_logged,
      of ?e ?d ?r ?e True sr_ok "resent_once w_logged" True sr_ok "resent_twice w_logged"]
  note t2 = resend_idempotent_per_group [OF disjI1 [OF refl] store_ok_empty,
      of ?e ?d ?r ?e True sr_ok "resent_once w_empty" True sr_ok "resent_twice w_empty"]
  from t1 have ok1: "store_ok (resent_once w_logged)"
    by (simp add: resent_once_def)
  from t1 lf resent_once_eq [of w_logged] two [of w_logged]
  have a: "\<exists>l x. select_latest_log (cron_job_logs (resent_twice w_logged)) ''2024-05-03'' = Some l
            \<and> filter (\<lambda>r. room r = ''Ward A'') (logged_rooms (Some l)) = [x]
            \<and> wa_response x = Some sr_ok \<and> status x = ''sent'' \<and> resent_at x = Some 200"
    by (simp add: td tr now)
  from t2 lf resent_once_eq [of w_empty] two [of w_empty]
  have b: "\<exists>l x. select_latest_log (cron_job_logs (resent_twice w_empty)) ''2024-05-03'' = Some l
            \<and> filter (\<lambda>r. room r = ''Ward A'') (logged_rooms (Some l)) = [x]
            \<and> wa_response x = Some sr_ok \<and> status x = ''sent'' \<and> resent_at x = Some 200"
    by (simp add: td tr now)
  show ?thesis
    using store_ok_logged store_ok_empty lf resent_once_eq [of w_logged] two [of w_logged] ok1 a b
    by (intro conjI)
qed

end
